theory Spec2Isabelle
  imports Main
begin

section \<open>venvr: combined Python/R virtual environments\<close>

text \<open>
  A shallow embedding of \<^verbatim>\<open>src/venvr/__init__.py\<close>. Text is a \<^typ>\<open>string\<close> whose
  characters stand for the code points 0..255 of the decoded text; a file's content is the
  text stored in it. Exceptions are values of the type \<open>error\<close>; every operation that
  touches the disk takes the file system and returns it, also when it raises.
\<close>

subsection \<open>Python string operations\<close>

text \<open>\<^verbatim>\<open>s.split(sep)\<close> for a one-character separator: never an empty list.\<close>

fun str_split :: "char \<Rightarrow> string \<Rightarrow> string list" where
  "str_split sep [] = [[]]"
| "str_split sep (c # cs) =
     (if c = sep then [] # str_split sep cs
      else (case str_split sep cs of
              [] \<Rightarrow> [[c]]
            | w # ws \<Rightarrow> (c # w) # ws))"

text \<open>\<^verbatim>\<open>sep.join(parts)\<close>.\<close>

fun str_join :: "string \<Rightarrow> string list \<Rightarrow> string" where
  "str_join sep [] = []"
| "str_join sep [w] = w"
| "str_join sep (w # v # ws) = w @ sep @ str_join sep (v # ws)"

text \<open>\<^verbatim>\<open>sub in s\<close> and \<^verbatim>\<open>s.startswith(sub)\<close>.\<close>

fun startswith :: "string \<Rightarrow> string \<Rightarrow> bool" where
  "startswith s [] = True"
| "startswith [] (p # ps) = False"
| "startswith (c # cs) (p # ps) = (c = p \<and> startswith cs ps)"

fun str_contains :: "string \<Rightarrow> string \<Rightarrow> bool" where
  "str_contains sub [] = (sub = [])"
| "str_contains sub (c # cs) = (startswith (c # cs) sub \<or> str_contains sub cs)"

text \<open>
  \<^verbatim>\<open>s.replace(old, new)\<close> for a non-empty \<open>old\<close>: the occurrences are taken from the
  left and do not overlap.
\<close>

function str_replace :: "string \<Rightarrow> string \<Rightarrow> string \<Rightarrow> string" where
  "str_replace old new [] = []"
| "str_replace old new (c # cs) =
     (if old \<noteq> [] \<and> startswith (c # cs) old
      then new @ str_replace old new (drop (length old) (c # cs))
      else c # str_replace old new cs)"
  by pat_completeness auto
termination
  by (relation "measure (\<lambda>(old, new, s). length s)") auto

text \<open>\<^verbatim>\<open>s.rstrip("\n")\<close>.\<close>

definition rstrip_newline :: "string \<Rightarrow> string" where
  "rstrip_newline s = rev (dropWhile (\<lambda>c. c = CHR 0x0A) (rev s))"

subsection \<open>Errors and the file system\<close>

text \<open>
  The exceptions of the program and of the library calls it makes. The program itself
  raises only \<open>ValueError\<close>, with the message as its argument.
\<close>

datatype message =
    NotVirtualEnv string
      \<comment> \<open>\<^verbatim>\<open>"This doesn't look like a Python virtual env: %s" % env_dir\<close>\<close>
  | UnableToCreateDirectory string
      \<comment> \<open>\<^verbatim>\<open>"Unable to create directory %r" % libpath\<close>\<close>
  | RNotFound
      \<comment> \<open>\<^verbatim>\<open>"Could not find the R or Rscript executable."\<close>\<close>
  | InvalidRVersion string
      \<comment> \<open>\<^verbatim>\<open>"Invalid R version: '%s'" % rv\<close>\<close>
  | NotWithClear string
      \<comment> \<open>\<^verbatim>\<open>"you cannot supply --{} and --clear together.".format(name)\<close>\<close>
  | PythonTooOld
      \<comment> \<open>\<^verbatim>\<open>"This script is only for use with Python >= 3.3"\<close>\<close>

datatype error =
    ValueError message
  | AttributeError string
  | FileExistsError string
  | FileNotFoundError string
  | NotADirectoryError string
  | IsADirectoryError string
  | OSError string
  | CalledProcessError string

datatype node = File string | Dir | Symlink string

type_synonym filesystem = "string \<Rightarrow> node option"

type_synonym 'a outcome = "(error + 'a) \<times> filesystem"

abbreviation NL :: char where
  "NL \<equiv> CHR 0x0A"

abbreviation CR :: char where
  "CR \<equiv> CHR 0x0D"

abbreviation SEP :: char where
  "SEP \<equiv> CHR ''/''"

subsection \<open>Paths (\<^verbatim>\<open>posixpath\<close>)\<close>

text \<open>\<^verbatim>\<open>os.path.join(a, b)\<close>; a call with three arguments joins from the left.\<close>

definition path_join :: "string \<Rightarrow> string \<Rightarrow> string" where
  "path_join a b =
     (if startswith b [SEP] then b
      else if a = [] \<or> last a = SEP then a @ b
      else a @ [SEP] @ b)"

text \<open>
  \<^verbatim>\<open>os.path.split(p)\<close>: the tail is what follows the last slash, the head what comes
  before it, without its trailing slashes unless it consists of slashes only.
\<close>

definition path_split :: "string \<Rightarrow> string \<times> string" where
  "path_split p =
     (let tail = rev (takeWhile (\<lambda>c. c \<noteq> SEP) (rev p));
          head = take (length p - length tail) p
      in (if head \<noteq> [] \<and> dropWhile (\<lambda>c. c = SEP) head \<noteq> []
          then rev (dropWhile (\<lambda>c. c = SEP) (rev head)) else head,
          tail))"

definition dirname :: "string \<Rightarrow> string" where
  "dirname p = fst (path_split p)"

definition basename :: "string \<Rightarrow> string" where
  "basename p = snd (path_split p)"

subsection \<open>File-system queries and updates\<close>

text \<open>
  A file system maps a path, as the string the program builds, to what is stored there.
  A symbolic link holds the path it points to. Following links stops after
  \<open>max_links\<close> steps, where the system call fails with \<^verbatim>\<open>ELOOP\<close>. Links are followed
  at the last component of a path only.
\<close>

definition max_links :: nat where
  "max_links = 40"

fun resolve :: "nat \<Rightarrow> filesystem \<Rightarrow> string \<Rightarrow> string option" where
  "resolve 0 fs p = (case fs p of Some (Symlink t) \<Rightarrow> None | _ \<Rightarrow> Some p)"
| "resolve (Suc n) fs p = (case fs p of Some (Symlink t) \<Rightarrow> resolve n fs t | _ \<Rightarrow> Some p)"

text \<open>\<^verbatim>\<open>os.stat\<close>: the node behind the links, if there is one.\<close>

definition stat :: "filesystem \<Rightarrow> string \<Rightarrow> node option" where
  "stat fs p = (case resolve max_links fs p of None \<Rightarrow> None | Some q \<Rightarrow> fs q)"

text \<open>
  \<^verbatim>\<open>os.path.exists\<close>, \<^verbatim>\<open>isfile\<close> and \<^verbatim>\<open>isdir\<close> follow links (a link to nothing does
  not exist); \<^verbatim>\<open>os.path.islink\<close> looks at the path itself.
\<close>

definition os_path_exists :: "filesystem \<Rightarrow> string \<Rightarrow> bool" where
  "os_path_exists fs p = (stat fs p \<noteq> None)"

definition os_path_isfile :: "filesystem \<Rightarrow> string \<Rightarrow> bool" where
  "os_path_isfile fs p = (case stat fs p of Some (File c) \<Rightarrow> True | _ \<Rightarrow> False)"

definition os_path_isdir :: "filesystem \<Rightarrow> string \<Rightarrow> bool" where
  "os_path_isdir fs p = (case stat fs p of Some Dir \<Rightarrow> True | _ \<Rightarrow> False)"

definition os_path_islink :: "filesystem \<Rightarrow> string \<Rightarrow> bool" where
  "os_path_islink fs p = (case fs p of Some (Symlink t) \<Rightarrow> True | _ \<Rightarrow> False)"

text \<open>
  What stands in the way of creating an entry at \<open>q\<close>: its parent directory must exist
  and be a directory. A path without a directory part is created in the working
  directory.
\<close>

definition parent_error :: "filesystem \<Rightarrow> string \<Rightarrow> error option" where
  "parent_error fs q =
     (let h = dirname q in
      if h = [] then None
      else (case stat fs h of
              None \<Rightarrow> Some (FileNotFoundError q)
            | Some Dir \<Rightarrow> None
            | Some other \<Rightarrow> Some (NotADirectoryError q)))"

text \<open>\<^verbatim>\<open>os.mkdir(p)\<close>: fails on any existing entry, a dangling link included.\<close>

definition os_mkdir :: "string \<Rightarrow> filesystem \<Rightarrow> unit outcome" where
  "os_mkdir p fs =
     (if fs p \<noteq> None then (Inl (FileExistsError p), fs)
      else (case parent_error fs p of
              Some e \<Rightarrow> (Inl e, fs)
            | None \<Rightarrow> (Inr (), fs(p \<mapsto> Dir))))"

text \<open>
  \<^verbatim>\<open>os.makedirs(name)\<close> with \<^verbatim>\<open>exist_ok=False\<close>: the missing ancestors first, an
  ancestor that appears meanwhile being no error, then the directory itself.
\<close>

definition makedirs_head :: "string \<Rightarrow> string" where
  "makedirs_head name =
     (if snd (path_split name) = [] then fst (path_split (fst (path_split name)))
      else fst (path_split name))"

definition makedirs_tail :: "string \<Rightarrow> string" where
  "makedirs_tail name =
     (if snd (path_split name) = [] then snd (path_split (fst (path_split name)))
      else snd (path_split name))"

lemma path_split_length:
  "length (fst (path_split p)) + length (snd (path_split p)) \<le> length p"
proof -
  let ?tail = "rev (takeWhile (\<lambda>c. c \<noteq> SEP) (rev p))"
  let ?head = "take (length p - length ?tail) p"
  have t: "length ?tail \<le> length p"
    using length_takeWhile_le [of "\<lambda>c. c \<noteq> SEP" "rev p"] by simp
  have "length (rev (dropWhile (\<lambda>c. c = SEP) (rev ?head))) \<le> length ?head"
    using length_dropWhile_le [of "\<lambda>c. c = SEP" "rev ?head"] by simp
  then have "length (fst (path_split p)) \<le> length ?head"
    by (simp add: path_split_def Let_def)
  moreover have "snd (path_split p) = ?tail"
    by (simp add: path_split_def Let_def)
  ultimately show ?thesis using t by simp
qed

lemma makedirs_head_shorter:
  "makedirs_tail name \<noteq> [] \<Longrightarrow> length (makedirs_head name) < length name"
proof -
  assume t: "makedirs_tail name \<noteq> []"
  have a: "length (fst (path_split name)) + length (snd (path_split name)) \<le> length name"
    by (rule path_split_length)
  have b: "length (fst (path_split (fst (path_split name))))
            + length (snd (path_split (fst (path_split name))))
          \<le> length (fst (path_split name))"
    by (rule path_split_length)
  show ?thesis
  proof (cases "snd (path_split name) = []")
    case True
    with t have "0 < length (snd (path_split (fst (path_split name))))"
      by (simp add: makedirs_tail_def)
    with a b have "length (fst (path_split (fst (path_split name)))) < length name"
      by linarith
    with True show ?thesis by (simp add: makedirs_head_def)
  next
    case False
    then have "0 < length (snd (path_split name))" by simp
    with a have "length (fst (path_split name)) < length name"
      by linarith
    with False show ?thesis by (simp add: makedirs_head_def)
  qed
qed

function os_makedirs :: "string \<Rightarrow> filesystem \<Rightarrow> unit outcome" where
  "os_makedirs name fs =
     (if makedirs_head name \<noteq> [] \<and> makedirs_tail name \<noteq> []
         \<and> \<not> os_path_exists fs (makedirs_head name)
      then (case os_makedirs (makedirs_head name) fs of
              (Inl (FileExistsError m), fs1) \<Rightarrow>
                 if makedirs_tail name = ''.'' then (Inr (), fs1) else os_mkdir name fs1
            | (Inl e, fs1) \<Rightarrow> (Inl e, fs1)
            | (Inr u, fs1) \<Rightarrow>
                 if makedirs_tail name = ''.'' then (Inr (), fs1) else os_mkdir name fs1)
      else os_mkdir name fs)"
  by pat_completeness auto
termination
  by (relation "measure (\<lambda>(name, fs). length name)") (auto simp: makedirs_head_shorter)

subsection \<open>Text files\<close>

text \<open>
  A file opened in text mode without a \<^verbatim>\<open>newline\<close> argument is read with universal
  newlines: \<^verbatim>\<open>\r\n\<close> and a lone \<^verbatim>\<open>\r\<close> arrive as \<^verbatim>\<open>\n\<close>. Written text is stored as
  it is (the line separator of the platform is taken to be \<^verbatim>\<open>\n\<close>).
\<close>

fun universal_newlines :: "string \<Rightarrow> string" where
  "universal_newlines [] = []"
| "universal_newlines [c] = (if c = CR then [NL] else [c])"
| "universal_newlines (c # d # cs) =
     (if c = CR \<and> d = NL then NL # universal_newlines cs
      else if c = CR then NL # universal_newlines (d # cs)
      else c # universal_newlines (d # cs))"

text \<open>
  Opening an existing file, for \<^verbatim>\<open>open(p)\<close> and \<^verbatim>\<open>open(p, "r+")\<close>: the path of the
  file behind the links.
\<close>

definition open_existing :: "string \<Rightarrow> filesystem \<Rightarrow> error + string" where
  "open_existing p fs =
     (case resolve max_links fs p of
        None \<Rightarrow> Inl (OSError p)
      | Some q \<Rightarrow>
          (case fs q of
             None \<Rightarrow> Inl (FileNotFoundError p)
           | Some (File c) \<Rightarrow> Inr q
           | Some other \<Rightarrow> Inl (IsADirectoryError p)))"

text \<open>\<^verbatim>\<open>open(p, "a")\<close>: a missing file is created empty, in an existing directory.\<close>

definition open_append :: "string \<Rightarrow> filesystem \<Rightarrow> string outcome" where
  "open_append p fs =
     (case resolve max_links fs p of
        None \<Rightarrow> (Inl (OSError p), fs)
      | Some q \<Rightarrow>
          (case fs q of
             None \<Rightarrow>
               (case parent_error fs q of
                  Some e \<Rightarrow> (Inl e, fs)
                | None \<Rightarrow> (Inr q, fs(q \<mapsto> File [])))
           | Some (File c) \<Rightarrow> (Inr q, fs)
           | Some other \<Rightarrow> (Inl (IsADirectoryError p), fs)))"

text \<open>The text of the open file \<open>q\<close>; \<^verbatim>\<open>file.read()\<close> from the start.\<close>

definition file_content :: "filesystem \<Rightarrow> string \<Rightarrow> string" where
  "file_content fs q = (case fs q of Some (File c) \<Rightarrow> c | _ \<Rightarrow> [])"

definition file_read :: "filesystem \<Rightarrow> string \<Rightarrow> string" where
  "file_read fs q = universal_newlines (file_content fs q)"

text \<open>A \<^verbatim>\<open>write\<close> on a file opened for appending lands at its end.\<close>

definition write_append :: "string \<Rightarrow> string \<Rightarrow> filesystem \<Rightarrow> filesystem" where
  "write_append q text fs = fs(q \<mapsto> File (file_content fs q @ text))"

text \<open>
  A \<^verbatim>\<open>write\<close> at position \<open>pos\<close> of a file opened with \<^verbatim>\<open>"r+"\<close> replaces what it
  covers and keeps what lies behind it: nothing truncates the file.
\<close>

definition write_at :: "nat \<Rightarrow> string \<Rightarrow> string \<Rightarrow> filesystem \<Rightarrow> filesystem" where
  "write_at pos q text fs =
     fs(q \<mapsto> File (take pos (file_content fs q) @ text
                    @ drop (pos + length text) (file_content fs q)))"

subsection \<open>The builder, its context and its surroundings\<close>

text \<open>
  The options of a \<^verbatim>\<open>VenvrBuilder\<close>: those of \<^verbatim>\<open>venv.EnvBuilder\<close> that the program
  passes on, and its own two.
\<close>

record builder =
  system_site_packages :: bool
  clear :: bool
  symlinks :: bool
  upgrade :: bool
  with_pip :: bool
  prompt :: "string option"
  convert_to_venvr :: bool
  r_system_site_packages :: bool

text \<open>
  The attributes \<^verbatim>\<open>create_configuration\<close> stores on the context from the result of
  \<^verbatim>\<open>get_r_info\<close>. They are set together, so the context holds all four or none.
\<close>

record r_attrs =
  r_home :: string
  r_exec :: string
  rscript_exec :: string
  r_version :: "string list"

text \<open>
  The context of one build, as far as the program reads or writes it. An attribute that
  may be missing is an option; reading a missing one raises \<^verbatim>\<open>AttributeError\<close>.
\<close>

record env_context =
  env_dir :: string
  bin_path :: string
  cfg_path :: string
  python_exe :: string
  r_info :: "r_attrs option"
  lib_name :: "string option"

text \<open>
  What the program asks of the interpreter and of the R installation: the platform, the
  working directory behind \<^verbatim>\<open>os.path.abspath\<close>, the directory of the module, and the
  outcome of the two commands \<^verbatim>\<open>R RHOME\<close> and
  \<^verbatim>\<open>Rscript --vanilla -e 'cat(R.version$major, R.version$minor, sep=".")'\<close>
  (the second is run by the path of the executable).
\<close>

record host_env =
  win32 :: bool
  is_64bit :: bool
  version_info :: "nat \<times> nat"
  has_base_prefix :: bool
  abspath :: "string \<Rightarrow> string"
  module_dir :: string
  run_R_RHOME :: "error + string"
  run_Rscript :: "string \<Rightarrow> error + string"

text \<open>
  The methods inherited from \<^verbatim>\<open>venv.EnvBuilder\<close>, which belongs to the standard
  library and is taken as given. \<open>base_create\<close> is the inherited \<^verbatim>\<open>create\<close>; it
  receives the two methods the subclass overrides and it calls.
\<close>

record base_builder =
  ensure_directories :: "builder \<Rightarrow> string \<Rightarrow> filesystem \<Rightarrow> env_context outcome"
  base_create_configuration :: "builder \<Rightarrow> env_context \<Rightarrow> filesystem \<Rightarrow> env_context outcome"
  symlink_or_copy :: "builder \<Rightarrow> string \<Rightarrow> string \<Rightarrow> filesystem \<Rightarrow> unit outcome"
  base_replace_variables :: "builder \<Rightarrow> string \<Rightarrow> env_context \<Rightarrow> string"
  base_create ::
    "builder \<Rightarrow> (env_context \<Rightarrow> filesystem \<Rightarrow> env_context outcome)
       \<Rightarrow> (env_context \<Rightarrow> filesystem \<Rightarrow> env_context outcome)
       \<Rightarrow> string \<Rightarrow> filesystem \<Rightarrow> unit outcome"

text \<open>Running one step after another: an exception ends the sequence.\<close>

definition and_then ::
  "'a outcome \<Rightarrow> ('a \<Rightarrow> filesystem \<Rightarrow> 'b outcome) \<Rightarrow> 'b outcome" where
  "and_then m f = (case m of (Inl e, fs) \<Rightarrow> (Inl e, fs) | (Inr x, fs) \<Rightarrow> f x fs)"

subsection \<open>The runtime locator: \<^verbatim>\<open>get_r_info\<close>\<close>

definition is_digit :: "char \<Rightarrow> bool" where
  "is_digit c = (c \<in> set ''0123456789'')"

text \<open>
  \<^verbatim>\<open>re.match(r"\d+\.\d+\..+", rv) is not None\<close>: digits, a dot, digits, a dot and one
  more character that is no newline, at the start of \<open>rv\<close>. A run of digits must be
  followed by a dot, so it is always the longest one.
\<close>

definition version_matches :: "string \<Rightarrow> bool" where
  "version_matches rv =
     (let d1 = takeWhile is_digit rv; r1 = dropWhile is_digit rv
      in d1 \<noteq> [] \<and>
         (case r1 of
            [] \<Rightarrow> False
          | c1 # r1' \<Rightarrow>
              c1 = CHR ''.'' \<and>
              (let d2 = takeWhile is_digit r1'; r2 = dropWhile is_digit r1'
               in d2 \<noteq> [] \<and>
                  (case r2 of
                     c2 # c3 # r3 \<Rightarrow> c2 = CHR ''.'' \<and> c3 \<noteq> NL
                   | _ \<Rightarrow> False))))"

definition get_r_info :: "host_env \<Rightarrow> filesystem \<Rightarrow> error + r_attrs" where
  "get_r_info env fs =
     (case run_R_RHOME env of
        Inl e \<Rightarrow> Inl e
      | Inr out \<Rightarrow>
          (let home = rstrip_newline out;
               bin0 = path_join home ''bin'';
               bin = (if win32 env \<and> is_64bit env then path_join bin0 ''x64'' else bin0);
               r = path_join bin ''R'';
               rscript = path_join bin ''Rscript''
           in if \<not> (os_path_exists fs r \<and> os_path_exists fs rscript)
              then Inl (ValueError RNotFound)
              else (case run_Rscript env rscript of
                      Inl e \<Rightarrow> Inl e
                    | Inr rv \<Rightarrow>
                        if \<not> version_matches rv then Inl (ValueError (InvalidRVersion rv))
                        else Inr \<lparr>r_home = home, r_exec = r, rscript_exec = rscript,
                                  r_version = str_split (CHR ''.'') rv\<rparr>)))"

subsection \<open>The configuration writer: \<^verbatim>\<open>create_configuration\<close>\<close>

text \<open>The three \<^verbatim>\<open>f.write\<close> calls of the \<^verbatim>\<open>with\<close> block, in their order.\<close>

definition r_home_text :: "r_attrs \<Rightarrow> string" where
  "r_home_text a = [NL] @ ''R-home = '' @ r_home a @ [NL]"

definition r_include_text :: "builder \<Rightarrow> string" where
  "r_include_text b =
     ''R-include-system-packages = ''
       @ (if r_system_site_packages b then ''true'' else ''false'') @ [NL]"

definition r_version_text :: "r_attrs \<Rightarrow> string" where
  "r_version_text a = ''R-version = '' @ str_join ''.'' (r_version a) @ [NL]"

text \<open>The \<^verbatim>\<open>with open(context.cfg_path, "a", encoding="utf-8")\<close> block.\<close>

definition append_configuration ::
  "builder \<Rightarrow> r_attrs \<Rightarrow> string \<Rightarrow> filesystem \<Rightarrow> unit outcome" where
  "append_configuration b a cfg fs =
     and_then (open_append cfg fs)
       (\<lambda>q fs1. (Inr (),
          write_append q (r_version_text a)
            (write_append q (r_include_text b)
              (write_append q (r_home_text a) fs1))))"

text \<open>
  The R attributes of the context: those it has, or those the locator finds when it has
  no \<^verbatim>\<open>r_home\<close>.
\<close>

definition ensure_r_info :: "host_env \<Rightarrow> env_context \<Rightarrow> filesystem \<Rightarrow> error + r_attrs" where
  "ensure_r_info env ctx fs =
     (case r_info ctx of
        Some a \<Rightarrow> Inr a
      | None \<Rightarrow> get_r_info env fs)"

definition create_configuration ::
  "base_builder \<Rightarrow> host_env \<Rightarrow> builder \<Rightarrow> bool \<Rightarrow> env_context \<Rightarrow> filesystem
     \<Rightarrow> env_context outcome" where
  "create_configuration base env b convert ctx fs =
     and_then
       (if \<not> convert then base_create_configuration base b ctx fs else (Inr ctx, fs))
       (\<lambda>ctx1 fs1.
          (case ensure_r_info env ctx1 fs1 of
             Inl e \<Rightarrow> (Inl e, fs1)
           | Inr a \<Rightarrow>
               and_then (append_configuration b a (cfg_path ctx1) fs1)
                 (\<lambda>u fs2. (Inr (ctx1\<lparr>r_info := Some a\<rparr>), fs2))))"

subsection \<open>Renaming the deactivation function\<close>

text \<open>
  \<^verbatim>\<open>\w\<close> of a \<^verbatim>\<open>str\<close> pattern on the code points below 256: the ASCII letters, digits
  and underscore, and the alphanumeric characters of Latin-1.
\<close>

definition is_word :: "char \<Rightarrow> bool" where
  "is_word c =
     (let n = (of_char c :: nat)
      in (48 \<le> n \<and> n \<le> 57) \<or> (65 \<le> n \<and> n \<le> 90) \<or> n = 95 \<or> (97 \<le> n \<and> n \<le> 122)
         \<or> n = 170 \<or> n = 178 \<or> n = 179 \<or> n = 181 \<or> n = 185 \<or> n = 186
         \<or> n = 188 \<or> n = 189 \<or> n = 190
         \<or> (192 \<le> n \<and> n \<le> 214) \<or> (216 \<le> n \<and> n \<le> 246) \<or> 248 \<le> n)"

text \<open>Whether the text begins with a word character.\<close>

fun word_start :: "string \<Rightarrow> bool" where
  "word_start [] = False"
| "word_start (c # cs) = is_word c"

text \<open>
  \<^verbatim>\<open>re.sub(r"\bdeactivate\b", "deactivate_py", text)\<close>, scanning from the left. The flag
  says whether the character before the current position is a word character: a match
  needs a word boundary on both sides, and the search goes on behind a match.
\<close>

function sub_deactivate :: "bool \<Rightarrow> string \<Rightarrow> string" where
  "sub_deactivate after_word [] = []"
| "sub_deactivate after_word (c # cs) =
     (if \<not> after_word \<and> startswith (c # cs) ''deactivate''
         \<and> \<not> word_start (drop 10 (c # cs))
      then ''deactivate_py'' @ sub_deactivate True (drop 10 (c # cs))
      else c # sub_deactivate (is_word c) cs)"
  by pat_completeness auto
termination
  by (relation "measure (\<lambda>(w, s). length s)") auto

definition rename_deactivate :: "string \<Rightarrow> string" where
  "rename_deactivate text = sub_deactivate False text"

subsection \<open>Placeholders: \<^verbatim>\<open>replace_variables\<close>\<close>

text \<open>The four replacements made when the text contains \<^verbatim>\<open>__VENVR_\<close>, in their order.\<close>

definition replace_venvr :: "string \<Rightarrow> string \<Rightarrow> string \<Rightarrow> string \<Rightarrow> string \<Rightarrow> string" where
  "replace_venvr incl home py lib text =
     str_replace ''__VENVR_LIB_NAME__'' lib
       (str_replace ''__VENVR_PY_EXEC__'' py
         (str_replace ''__VENVR_R_HOME__'' home
           (str_replace ''__VENVR_SYSTEM_PACKAGES__'' incl text)))"

definition replace_variables ::
  "base_builder \<Rightarrow> builder \<Rightarrow> string \<Rightarrow> env_context \<Rightarrow> error + string" where
  "replace_variables base b text ctx =
     (let text1 = base_replace_variables base b text ctx
      in if str_contains ''__VENVR_'' text1
         then (case r_info ctx of
                 None \<Rightarrow> Inl (AttributeError ''r_home'')
               | Some a \<Rightarrow>
                   (case lib_name ctx of
                      None \<Rightarrow> Inl (AttributeError ''lib_name'')
                    | Some lib \<Rightarrow>
                        Inr (replace_venvr
                               (if r_system_site_packages b then ''true'' else ''false'')
                               (r_home a) (python_exe ctx) lib text1)))
         else Inr text1)"

subsection \<open>\<^verbatim>\<open>post_setup\<close>\<close>

text \<open>The library directory of R inside the environment (lines 90 to 96).\<close>

definition r_libpath :: "host_env \<Rightarrow> env_context \<Rightarrow> r_attrs \<Rightarrow> string" where
  "r_libpath env ctx a =
     path_join (path_join (env_dir ctx) (if win32 env then ''Lib'' else ''lib''))
       (''R'' @ str_join ''.'' (take 2 (r_version a)))"

definition provision_libdir :: "string \<Rightarrow> filesystem \<Rightarrow> unit outcome" where
  "provision_libdir libpath fs =
     (if \<not> os_path_exists fs libpath then os_makedirs libpath fs
      else if os_path_islink fs libpath \<or> os_path_isfile fs libpath
      then (Inl (ValueError (UnableToCreateDirectory libpath)), fs)
      else (Inr (), fs))"

text \<open>Installing the two executables (lines 100 to 103).\<close>

definition setup_r :: "base_builder \<Rightarrow> builder \<Rightarrow> env_context \<Rightarrow> r_attrs \<Rightarrow> filesystem \<Rightarrow> unit outcome" where
  "setup_r base b ctx a fs =
     and_then
       (symlink_or_copy base b (r_exec a) (path_join (bin_path ctx) (basename (r_exec a))) fs)
       (\<lambda>u. symlink_or_copy base b (rscript_exec a)
               (path_join (bin_path ctx) (basename (rscript_exec a))))"

text \<open>
  Rewriting the activation script (the second \<^verbatim>\<open>with\<close> block, lines 113 to 118): the
  file is read to its end, and the new text is written from position 0.
\<close>

definition compose_script :: "string \<Rightarrow> string \<Rightarrow> string" where
  "compose_script py_script r_script = rename_deactivate py_script @ r_script"

definition rewrite_activate :: "string \<Rightarrow> string \<Rightarrow> filesystem \<Rightarrow> unit outcome" where
  "rewrite_activate dstfile r_script fs =
     (case open_existing dstfile fs of
        Inl e \<Rightarrow> (Inl e, fs)
      | Inr q \<Rightarrow> (Inr (), write_at 0 q (compose_script (file_read fs q) r_script) fs))"

text \<open>The scripts step (lines 107 to 118).\<close>

definition setup_scripts :: "base_builder \<Rightarrow> host_env \<Rightarrow> builder \<Rightarrow> env_context \<Rightarrow> filesystem \<Rightarrow> unit outcome" where
  "setup_scripts base env b ctx fs =
     (let srcfile = path_join (path_join (path_join (module_dir env) ''scripts'') ''common'')
                      ''activate'';
          dstfile = path_join (bin_path ctx) ''activate''
      in (case open_existing srcfile fs of
            Inl e \<Rightarrow> (Inl e, fs)
          | Inr q \<Rightarrow>
              (case replace_variables base b (file_read fs q) ctx of
                 Inl e \<Rightarrow> (Inl e, fs)
               | Inr r_script \<Rightarrow> rewrite_activate dstfile r_script fs)))"

definition post_setup ::
  "base_builder \<Rightarrow> host_env \<Rightarrow> builder \<Rightarrow> env_context \<Rightarrow> filesystem \<Rightarrow> env_context outcome" where
  "post_setup base env b ctx0 fs =
     (let ctx = ctx0\<lparr>lib_name := Some (if win32 env then ''Lib'' else ''lib'')\<rparr>
      in (case r_info ctx of
            None \<Rightarrow> (Inl (AttributeError ''r_version''), fs)
          | Some a \<Rightarrow>
              and_then (provision_libdir (r_libpath env ctx a) fs)
                (\<lambda>u fs1. and_then (setup_r base b ctx a fs1)
                   (\<lambda>u fs2. and_then (setup_scripts base env b ctx fs2)
                      (\<lambda>u fs3. (Inr ctx, fs3))))))"

subsection \<open>\<^verbatim>\<open>VenvrBuilder.create\<close>, \<^verbatim>\<open>main\<close> and the script\<close>

definition create :: "base_builder \<Rightarrow> host_env \<Rightarrow> builder \<Rightarrow> string \<Rightarrow> filesystem \<Rightarrow> unit outcome" where
  "create base env b dir fs =
     (if convert_to_venvr b
      then (let env_dir1 = abspath env dir;
                cfg = path_join env_dir1 ''pyvenv.cfg''
            in if \<not> os_path_exists fs cfg
               then (Inl (ValueError (NotVirtualEnv env_dir1)), fs)
               else and_then (ensure_directories base b env_dir1 fs)
                      (\<lambda>ctx fs1.
                         and_then
                           (create_configuration base env b True (ctx\<lparr>cfg_path := cfg\<rparr>) fs1)
                           (\<lambda>ctx2 fs2.
                              and_then (post_setup base env b ctx2 fs2)
                                (\<lambda>ctx3 fs3. (Inr (), fs3)))))
      else base_create base b (create_configuration base env b False)
             (post_setup base env b) dir fs)"

text \<open>The options \<^verbatim>\<open>parser.parse_args\<close> returns.\<close>

record options =
  opt_dirs :: "string list"
  opt_convert :: bool
  opt_system_site :: "string option"
  opt_symlinks :: bool
  opt_clear :: bool
  opt_upgrade :: bool
  opt_with_pip :: bool
  opt_prompt :: "string option"

definition builder_of :: "options \<Rightarrow> builder" where
  "builder_of opts =
     \<lparr>system_site_packages = (opt_system_site opts \<in> {Some ''both'', Some ''python''}),
      clear = opt_clear opts,
      symlinks = opt_symlinks opts,
      upgrade = opt_upgrade opts,
      with_pip = opt_with_pip opts,
      prompt = opt_prompt opts,
      convert_to_venvr = opt_convert opts,
      r_system_site_packages = (opt_system_site opts \<in> {Some ''both'', Some ''r''})\<rparr>"

text \<open>The loop \<^verbatim>\<open>for d in options.dirs: builder.create(d)\<close> for any \<open>create\<close>.\<close>

fun create_each ::
  "(string \<Rightarrow> filesystem \<Rightarrow> unit outcome) \<Rightarrow> string list \<Rightarrow> filesystem \<Rightarrow> unit outcome" where
  "create_each c [] fs = (Inr (), fs)"
| "create_each c (d # ds) fs =
     (case c d fs of
        (Inl e, fs1) \<Rightarrow> (Inl e, fs1)
      | (Inr u, fs1) \<Rightarrow> create_each c ds fs1)"

text \<open>The directories on which that loop calls \<open>create\<close>, in the order of the calls.\<close>

fun attempted ::
  "(string \<Rightarrow> filesystem \<Rightarrow> unit outcome) \<Rightarrow> string list \<Rightarrow> filesystem \<Rightarrow> string list" where
  "attempted c [] fs = []"
| "attempted c (d # ds) fs =
     d # (case c d fs of
            (Inl e, fs1) \<Rightarrow> []
          | (Inr u, fs1) \<Rightarrow> attempted c ds fs1)"

definition compatible :: "host_env \<Rightarrow> bool" where
  "compatible env =
     (if fst (version_info env) < 3 \<or> (fst (version_info env) = 3 \<and> snd (version_info env) < 3)
      then False
      else if \<not> has_base_prefix env then False
      else True)"

definition main :: "base_builder \<Rightarrow> host_env \<Rightarrow> options \<Rightarrow> filesystem \<Rightarrow> unit outcome" where
  "main base env opts fs =
     (if \<not> compatible env then (Inl (ValueError PythonTooOld), fs)
      else if opt_convert opts \<and> opt_clear opts
      then (Inl (ValueError (NotWithClear ''convert-to-venvr'')), fs)
      else if opt_upgrade opts \<and> opt_clear opts
      then (Inl (ValueError (NotWithClear ''upgrade'')), fs)
      else create_each (create base env (builder_of opts)) (opt_dirs opts) fs)"

text \<open>
  The \<^verbatim>\<open>__main__\<close> block: the exit status is 1 unless \<^verbatim>\<open>main\<close> returns.
\<close>

definition exit_status :: "unit outcome \<Rightarrow> nat" where
  "exit_status r = (case fst r of Inl e \<Rightarrow> 1 | Inr u \<Rightarrow> 0)"

definition run_script :: "base_builder \<Rightarrow> host_env \<Rightarrow> options \<Rightarrow> filesystem \<Rightarrow> nat \<times> filesystem" where
  "run_script base env opts fs =
     (let r = main base env opts fs in (exit_status r, snd r))"

subsection \<open>Notions of the specification\<close>

text \<open>
  The lines of a text: each ends at a newline, the last one also at the end of the text.
\<close>

fun text_lines :: "string \<Rightarrow> string list" where
  "text_lines [] = []"
| "text_lines (c # cs) =
     (if c = NL then [] # text_lines cs
      else (case text_lines cs of
              [] \<Rightarrow> [[c]]
            | l # ls \<Rightarrow> (c # l) # ls))"

text \<open>
  The three lines of the configuration file that describe R: the install root, whether
  the system packages are included, and the version.
\<close>

definition config_lines :: "builder \<Rightarrow> r_attrs \<Rightarrow> string list" where
  "config_lines b a =
     [''R-home = '' @ r_home a,
      ''R-include-system-packages = ''
        @ (if r_system_site_packages b then ''true'' else ''false''),
      ''R-version = '' @ str_join ''.'' (r_version a)]"





text \<open>
  The four placeholders of the template, the characters they are made of, and the
  values that cannot be mistaken for a part of a placeholder: a value is safe when it
  is not empty, has no underscore at either end and no two in a row, and has a
  character that occurs in no placeholder. \<^verbatim>\<open>true\<close>, \<^verbatim>\<open>false\<close>, \<^verbatim>\<open>lib\<close> and
  \<^verbatim>\<open>/usr/lib/R\<close> are safe.
\<close>

definition tokens :: "string list" where
  "tokens = [''__VENVR_SYSTEM_PACKAGES__'', ''__VENVR_R_HOME__'',
             ''__VENVR_PY_EXEC__'', ''__VENVR_LIB_NAME__'']"

definition token_chars :: "char list" where
  "token_chars = concat tokens"

definition safe_value :: "string \<Rightarrow> bool" where
  "safe_value v =
     (v \<noteq> [] \<and> hd v \<noteq> CHR ''_'' \<and> last v \<noteq> CHR ''_'' \<and> \<not> str_contains ''__'' v
      \<and> filter (\<lambda>c. c \<notin> set token_chars) v \<noteq> [])"

text \<open>
  A stretch of text between \<open>x\<close> and \<open>y\<close> is delimited when the character before it and
  the character behind it, where there is one, occur in no placeholder.
\<close>

definition delimited :: "string \<Rightarrow> string \<Rightarrow> bool" where
  "delimited x y =
     ((x = [] \<or> last x \<notin> set token_chars) \<and> (y = [] \<or> hd y \<notin> set token_chars))"

text \<open>
  An occurrence of \<open>u\<close> and a copy of \<open>v\<close> in one text lie apart: the occurrence cannot
  begin inside the copy, and one that begins before the copy ends before it.
\<close>

definition apart :: "string \<Rightarrow> string \<Rightarrow> bool" where
  "apart u v =
     ((\<forall>w v' t. v = w @ v' \<and> v' \<noteq> [] \<longrightarrow> \<not> startswith (v' @ t) u)
      \<and> (\<forall>p t. startswith (p @ v @ t) u \<longrightarrow> startswith p u))"

subsection \<open>Concrete inputs\<close>

text \<open>
  A POSIX host with R 4.3.1 under \<^verbatim>\<open>/usr/lib/R\<close>, and a file system that holds the two
  executables of R.
\<close>

definition example_env :: host_env where
  "example_env =
     \<lparr>win32 = False, is_64bit = True, version_info = (3, 11), has_base_prefix = True,
      abspath = (\<lambda>p. if startswith p [SEP] then p else path_join ''/home/user'' p),
      module_dir = ''/site/venvr'',
      run_R_RHOME = Inr (''/usr/lib/R'' @ [NL]),
      run_Rscript = (\<lambda>p. Inr ''4.3.1'')\<rparr>"

definition example_r :: r_attrs where
  "example_r =
     \<lparr>r_home = ''/usr/lib/R'', r_exec = ''/usr/lib/R/bin/R'',
      rscript_exec = ''/usr/lib/R/bin/Rscript'', r_version = [''4'', ''3'', ''1'']\<rparr>"

definition r_installed :: filesystem where
  "r_installed =
     Map.empty(''/usr/lib/R/bin/R'' \<mapsto> File ''r'',
               ''/usr/lib/R/bin/Rscript'' \<mapsto> File ''rscript'')"

text \<open>
  A builder that converts, and stand-ins for the inherited methods: the context describes
  the usual layout, the configuration file gets one line, an executable is installed as
  a link, the inherited placeholders are absent, and the inherited \<^verbatim>\<open>create\<close> runs
  the two overridden methods.
\<close>

definition example_builder :: builder where
  "example_builder =
     \<lparr>system_site_packages = False, clear = False, symlinks = True, upgrade = False,
      with_pip = True, prompt = None, convert_to_venvr = True,
      r_system_site_packages = False\<rparr>"

definition simple_context :: "string \<Rightarrow> env_context" where
  "simple_context d =
     \<lparr>env_dir = d, bin_path = path_join d ''bin'', cfg_path = path_join d ''pyvenv.cfg'',
      python_exe = ''python3'', r_info = None, lib_name = None\<rparr>"

definition simple_base :: base_builder where
  "simple_base =
     \<lparr>ensure_directories = (\<lambda>b d fs. (Inr (simple_context d), fs)),
      base_create_configuration =
        (\<lambda>b ctx fs. (Inr ctx, fs(cfg_path ctx \<mapsto> File (''home = /usr/bin'' @ [NL])))),
      symlink_or_copy = (\<lambda>b src dst fs. (Inr (), fs(dst \<mapsto> Symlink src))),
      base_replace_variables = (\<lambda>b text ctx. text),
      base_create =
        (\<lambda>b configure finish d fs.
           and_then (configure (simple_context d) fs)
             (\<lambda>ctx fs1. and_then (finish ctx fs1) (\<lambda>ctx2 fs2. (Inr (), fs2))))\<rparr>"

text \<open>
  A file system with R, the template of the package and a Python environment in
  \<^verbatim>\<open>/b\<close>; there is no \<^verbatim>\<open>/a\<close>.
\<close>

definition env_b :: filesystem where
  "env_b =
     r_installed
       (''/b'' \<mapsto> Dir,
        ''/b/pyvenv.cfg'' \<mapsto> File (''home = /usr/bin'' @ [NL]),
        ''/b/bin'' \<mapsto> Dir,
        ''/b/bin/activate'' \<mapsto> File (''deactivate () { :; }'' @ [NL]),
        ''/b/lib'' \<mapsto> Dir,
        ''/site/venvr/scripts/common/activate'' \<mapsto>
           File (''R_HOME=__VENVR_R_HOME__'' @ [NL]))"

text \<open>Command lines: two directories to convert; one to convert and clear.\<close>

definition two_dirs :: options where
  "two_dirs =
     \<lparr>opt_dirs = [''/a'', ''/b''], opt_convert = True, opt_system_site = None,
      opt_symlinks = True, opt_clear = False, opt_upgrade = False, opt_with_pip = True,
      opt_prompt = None\<rparr>"

definition convert_and_clear :: options where
  "convert_and_clear =
     \<lparr>opt_dirs = [''/b''], opt_convert = True, opt_system_site = None,
      opt_symlinks = True, opt_clear = True, opt_upgrade = False, opt_with_pip = True,
      opt_prompt = None\<rparr>"

text \<open>
  The environment \<^verbatim>\<open>/b\<close> with a link in the place of the library directory of R: one
  that leads nowhere, and one that leads to a directory.
\<close>

definition dangling_fs :: filesystem where
  "dangling_fs = env_b(''/b/lib/R4.3'' \<mapsto> Symlink ''/nowhere'')"

definition linked_fs :: filesystem where
  "linked_fs = env_b(''/b/lib/R4.3'' \<mapsto> Symlink ''/b/lib'')"

text \<open>The environment \<^verbatim>\<open>/b\<close> with an activation script whose lines end in \<^verbatim>\<open>\r\n\<close>.\<close>

definition crlf_fs :: filesystem where
  "crlf_fs =
     env_b(''/b/bin/activate'' \<mapsto>
       File (''deactivate () {'' @ [CR, NL] @ ''unset A'' @ [CR, NL] @ ''unset B'' @ [CR, NL]
             @ ''unset C'' @ [CR, NL] @ ''unset D'' @ [CR, NL] @ ''}'' @ [CR, NL]))"

text \<open>
  The context of \<^verbatim>\<open>/b\<close> when the scripts are composed, a template with two of the
  placeholders and one that is not among the four, a template in which two placeholders
  share their underscores, and a context whose install root contains a placeholder.
\<close>

definition example_context :: env_context where
  "example_context = (simple_context ''/b'')\<lparr>r_info := Some example_r, lib_name := Some ''lib''\<rparr>"

definition example_template :: string where
  "example_template = ''R_HOME=__VENVR_R_HOME__ PY=__VENVR_PY_EXEC__ X=__VENVR_OTHER__''"

definition overlapping_template :: string where
  "overlapping_template = ''__VENVR_PY_EXEC__VENVR_R_HOME__''"

definition odd_context :: env_context where
  "odd_context =
     (simple_context ''/b'')
       \<lparr>r_info := Some (example_r\<lparr>r_home := ''/opt/__VENVR_SYSTEM_PACKAGES__''\<rparr>),
        lib_name := Some ''lib''\<rparr>"

section \<open>Properties\<close>

subsection \<open>The version line\<close>

lemma str_split_nonempty: "str_split sep s \<noteq> []"
  by (induction s) (auto split: list.splits)

lemma str_join_split: "str_join [sep] (str_split sep s) = s"
proof (induction s)
  case Nil
  show ?case by simp
next
  case (Cons c cs)
  obtain w ws where ws: "str_split sep cs = w # ws"
    using str_split_nonempty [of sep cs] by (cases "str_split sep cs") auto
  show ?case
  proof (cases "c = sep")
    case True
    with Cons ws show ?thesis by simp
  next
    case False
    with Cons ws show ?thesis by (cases ws) auto
  qed
qed

lemma cfg_resolves: "resolve max_links env_b ''/b/pyvenv.cfg'' = Some ''/b/pyvenv.cfg''"
  by (simp add: max_links_def env_b_def r_installed_def eval_nat_numeral)

lemma cfg_is_file: "env_b ''/b/pyvenv.cfg'' = Some (File (''home = /usr/bin'' @ [NL]))"
  by (simp add: env_b_def)

lemma get_r_info_env_b: "get_r_info example_env env_b = Inr example_r"
  by code_simp

lemma get_r_info_version:
  assumes "get_r_info env fs = Inr a"
  shows "\<exists>rv. run_Rscript env (rscript_exec a) = Inr rv
            \<and> r_version a = str_split (CHR ''.'') rv"
  using assms
  by (auto simp: get_r_info_def Let_def split: sum.splits if_splits)

text \<open>
  C10. Whenever the locator returns a descriptor, the version it stores is the string
  that \<^verbatim>\<open>Rscript\<close> printed, split at the dots, and joining the parts with dots gives
  that string back. So when \<^verbatim>\<open>create_configuration\<close> runs on a context without R
  attributes, on the create path or the convert path, and the configuration file exists,
  the file holds afterwards its old text, the install-root line, the inclusion line and
  then \<^verbatim>\<open>R-version = \<close> followed by the printed string, character by character, and a
  newline; the context carries the descriptor, and nothing else on the disk changes.
\<close>

theorem version_line_verbatim:
  assumes "get_r_info env fs = Inr a"
  shows "\<exists>rv. run_Rscript env (rscript_exec a) = Inr rv
            \<and> r_version a = str_split (CHR ''.'') rv
            \<and> str_join ''.'' (r_version a) = rv
            \<and> r_version_text a = ''R-version = '' @ rv @ [NL]
            \<and> ((if \<not> convert then base_create_configuration base b ctx fs0 else (Inr ctx, fs0))
                   = (Inr ctx1, fs)
                 \<and> r_info ctx1 = None
                 \<and> resolve max_links fs (cfg_path ctx1) = Some q
                 \<and> fs q = Some (File old)
               \<longrightarrow> append_configuration b a (cfg_path ctx1) fs
                     = (Inr (), fs(q \<mapsto> File (old @ r_home_text a @ r_include_text b
                                             @ ''R-version = '' @ rv @ [NL])))
                   \<and> create_configuration base env b convert ctx fs0
                     = (Inr (ctx1\<lparr>r_info := Some a\<rparr>),
                        fs(q \<mapsto> File (old @ r_home_text a @ r_include_text b
                                        @ ''R-version = '' @ rv @ [NL]))))"
proof -
  from get_r_info_version [OF assms] obtain rv
    where rv: "run_Rscript env (rscript_exec a) = Inr rv"
      and sp: "r_version a = str_split (CHR ''.'') rv"
    by blast
  have j: "str_join ''.'' (r_version a) = rv"
    unfolding sp by (rule str_join_split)
  have t: "r_version_text a = ''R-version = '' @ rv @ [NL]"
    by (simp add: r_version_text_def j)
  have written: "(if \<not> convert then base_create_configuration base b ctx fs0 else (Inr ctx, fs0))
                   = (Inr ctx1, fs)
                 \<and> r_info ctx1 = None
                 \<and> resolve max_links fs (cfg_path ctx1) = Some q
                 \<and> fs q = Some (File old)
               \<longrightarrow> append_configuration b a (cfg_path ctx1) fs
                     = (Inr (), fs(q \<mapsto> File (old @ r_home_text a @ r_include_text b
                                             @ ''R-version = '' @ rv @ [NL])))
                   \<and> create_configuration base env b convert ctx fs0
                     = (Inr (ctx1\<lparr>r_info := Some a\<rparr>),
                        fs(q \<mapsto> File (old @ r_home_text a @ r_include_text b
                                        @ ''R-version = '' @ rv @ [NL])))"
  proof (intro impI, elim conjE)
    assume first: "(if \<not> convert then base_create_configuration base b ctx fs0 else (Inr ctx, fs0))
                     = (Inr ctx1, fs)"
      and none: "r_info ctx1 = None"
      and res: "resolve max_links fs (cfg_path ctx1) = Some q"
      and old: "fs q = Some (File old)"
    have ap: "append_configuration b a (cfg_path ctx1) fs
                = (Inr (), fs(q \<mapsto> File (old @ r_home_text a @ r_include_text b
                                        @ ''R-version = '' @ rv @ [NL])))"
      using res old
      by (simp add: append_configuration_def and_then_def open_append_def write_append_def
            file_content_def t)
    have "create_configuration base env b convert ctx fs0
            = and_then (append_configuration b a (cfg_path ctx1) fs)
                (\<lambda>u fs2. (Inr (ctx1\<lparr>r_info := Some a\<rparr>), fs2))"
      unfolding create_configuration_def first
      using none assms by (simp add: and_then_def ensure_r_info_def)
    with ap show "append_configuration b a (cfg_path ctx1) fs
                     = (Inr (), fs(q \<mapsto> File (old @ r_home_text a @ r_include_text b
                                             @ ''R-version = '' @ rv @ [NL])))
                   \<and> create_configuration base env b convert ctx fs0
                     = (Inr (ctx1\<lparr>r_info := Some a\<rparr>),
                        fs(q \<mapsto> File (old @ r_home_text a @ r_include_text b
                                        @ ''R-version = '' @ rv @ [NL])))"
      by (simp add: and_then_def)
  qed
  from rv sp j t written show ?thesis by blast
qed

theorem version_line_verbatim_witness:
  "run_Rscript example_env (rscript_exec example_r) = Inr ''4.3.1''
   \<and> create_configuration simple_base example_env example_builder True
        (simple_context ''/b'') env_b
     = (Inr ((simple_context ''/b'')\<lparr>r_info := Some example_r\<rparr>),
        env_b(''/b/pyvenv.cfg'' \<mapsto>
          File (''home = /usr/bin'' @ [NL, NL] @ ''R-home = /usr/lib/R'' @ [NL]
                @ ''R-include-system-packages = false'' @ [NL]
                @ ''R-version = 4.3.1'' @ [NL])))"
proof -
  have run: "run_Rscript example_env (rscript_exec example_r) = Inr ''4.3.1''"
    by (simp add: example_env_def)
  have hyp: "(if \<not> True then base_create_configuration simple_base example_builder
                 (simple_context ''/b'') env_b else (Inr (simple_context ''/b''), env_b))
               = (Inr (simple_context ''/b''), env_b)
             \<and> r_info (simple_context ''/b'') = None
             \<and> resolve max_links env_b (cfg_path (simple_context ''/b'')) = Some ''/b/pyvenv.cfg''
             \<and> env_b ''/b/pyvenv.cfg'' = Some (File (''home = /usr/bin'' @ [NL]))"
    using cfg_resolves cfg_is_file by (simp add: simple_context_def path_join_def)
  from version_line_verbatim [OF get_r_info_env_b, of True simple_base example_builder
      "simple_context ''/b''" env_b "simple_context ''/b''" "''/b/pyvenv.cfg''"
      "''home = /usr/bin'' @ [NL]"]
  obtain rv where rv: "run_Rscript example_env (rscript_exec example_r) = Inr rv"
    and imp: "(if \<not> True then base_create_configuration simple_base example_builder
                 (simple_context ''/b'') env_b else (Inr (simple_context ''/b''), env_b))
               = (Inr (simple_context ''/b''), env_b)
             \<and> r_info (simple_context ''/b'') = None
             \<and> resolve max_links env_b (cfg_path (simple_context ''/b'')) = Some ''/b/pyvenv.cfg''
             \<and> env_b ''/b/pyvenv.cfg'' = Some (File (''home = /usr/bin'' @ [NL]))
           \<longrightarrow> append_configuration example_builder example_r (cfg_path (simple_context ''/b'')) env_b
                 = (Inr (), env_b(''/b/pyvenv.cfg'' \<mapsto> File ((''home = /usr/bin'' @ [NL])
                       @ r_home_text example_r @ r_include_text example_builder
                       @ ''R-version = '' @ rv @ [NL])))
               \<and> create_configuration simple_base example_env example_builder True
                   (simple_context ''/b'') env_b
                 = (Inr ((simple_context ''/b'')\<lparr>r_info := Some example_r\<rparr>),
                    env_b(''/b/pyvenv.cfg'' \<mapsto> File ((''home = /usr/bin'' @ [NL])
                       @ r_home_text example_r @ r_include_text example_builder
                       @ ''R-version = '' @ rv @ [NL])))"
    by blast
  from rv run have "rv = ''4.3.1''" by simp
  with imp hyp have "create_configuration simple_base example_env example_builder True
                   (simple_context ''/b'') env_b
                 = (Inr ((simple_context ''/b'')\<lparr>r_info := Some example_r\<rparr>),
                    env_b(''/b/pyvenv.cfg'' \<mapsto> File ((''home = /usr/bin'' @ [NL])
                       @ r_home_text example_r @ r_include_text example_builder
                       @ ''R-version = '' @ ''4.3.1'' @ [NL])))"
    by blast
  then show ?thesis
    using run
    by (simp add: r_home_text_def r_include_text_def example_r_def example_builder_def)
qed

subsection \<open>The configuration writer\<close>

lemma text_lines_line: "NL \<notin> set l \<Longrightarrow> text_lines (l @ NL # rest) = l # text_lines rest"
  by (induction l) auto

lemma text_lines_nonempty: "s \<noteq> [] \<Longrightarrow> text_lines s \<noteq> []"
  by (cases s) (auto split: list.splits)

lemma text_lines_terminated:
  "a = [] \<or> last a = NL \<Longrightarrow> text_lines (a @ b) = text_lines a @ text_lines b"
proof (induction a)
  case Nil
  show ?case by simp
next
  case (Cons c a)
  show ?case
  proof (cases "a = []")
    case True
    with Cons.prems show ?thesis by simp
  next
    case False
    with Cons.prems have l: "last a = NL" by simp
    obtain w ws where w: "text_lines a = w # ws"
      using text_lines_nonempty [OF False] by (cases "text_lines a") auto
    from Cons.IH l have "text_lines (a @ b) = text_lines a @ text_lines b" by simp
    with w show ?thesis by simp
  qed
qed

lemma text_lines_unterminated:
  "a \<noteq> [] \<Longrightarrow> last a \<noteq> NL \<Longrightarrow> text_lines (a @ NL # b) = text_lines a @ text_lines b"
proof (induction a)
  case Nil
  then show ?case by simp
next
  case (Cons c a)
  show ?case
  proof (cases "a = []")
    case True
    with Cons.prems show ?thesis by simp
  next
    case False
    with Cons.prems have l: "last a \<noteq> NL" by simp
    obtain w ws where w: "text_lines a = w # ws"
      using text_lines_nonempty [OF False] by (cases "text_lines a") auto
    from Cons.IH False l have "text_lines (a @ NL # b) = text_lines a @ text_lines b" by simp
    with w show ?thesis by simp
  qed
qed

lemma str_join_no_newline:
  "\<forall>w \<in> set ws. NL \<notin> set w \<Longrightarrow> NL \<notin> set (str_join ''.'' ws)"
  by (induction "''.''" ws rule: str_join.induct) auto

lemma text_lines_three:
  assumes "NL \<notin> set l1" "NL \<notin> set l2" "NL \<notin> set l3"
  shows "text_lines (l1 @ NL # l2 @ NL # l3 @ [NL]) = [l1, l2, l3]"
proof -
  have "text_lines (l3 @ NL # []) = [l3]"
    using assms(3) text_lines_line [of l3 "[]"] by simp
  then have "text_lines (l2 @ NL # l3 @ [NL]) = [l2, l3]"
    using assms(2) text_lines_line [of l2 "l3 @ [NL]"] by simp
  then show ?thesis
    using assms(1) text_lines_line [of l1 "l2 @ NL # l3 @ [NL]"] by simp
qed

lemma append_configuration_content:
  assumes "resolve max_links fs cfg = Some q" "fs q = Some (File old)"
  shows "append_configuration b a cfg fs =
           (Inr (), fs(q \<mapsto> File (old @ NL # concat (map (\<lambda>l. l @ [NL]) (config_lines b a)))))"
  using assms
  by (simp add: append_configuration_def and_then_def open_append_def write_append_def
        file_content_def r_home_text_def r_include_text_def r_version_text_def config_lines_def)

text \<open>
  C1, as the code has it. The writer appends a newline and then the three lines, install
  root, inclusion flag (\<^verbatim>\<open>true\<close> or \<^verbatim>\<open>false\<close>) and dotted version, each ended by a
  newline; what the file held stays in front, and nothing else on the disk changes. When
  neither the install root nor a part of the version contains a newline, the lines of the
  file are the old ones followed by the three new ones, with an empty line between them
  if the old text was empty or ended with a newline: \<open>N + 4\<close> lines then, and \<open>N + 3\<close> only
  when the last old line had no newline at its end.
\<close>

theorem configuration_appended:
  assumes "resolve max_links fs cfg = Some q" and "fs q = Some (File old)"
    and "NL \<notin> set (r_home a)" and "\<forall>w \<in> set (r_version a). NL \<notin> set w"
  shows "append_configuration b a cfg fs =
           (Inr (), fs(q \<mapsto> File (old @ NL # concat (map (\<lambda>l. l @ [NL]) (config_lines b a)))))
         \<and> text_lines (old @ NL # concat (map (\<lambda>l. l @ [NL]) (config_lines b a))) =
             text_lines old @ (if old = [] \<or> last old = NL then [[]] else []) @ config_lines b a"
proof -
  let ?l1 = "''R-home = '' @ r_home a"
  let ?l2 = "''R-include-system-packages = ''
               @ (if r_system_site_packages b then ''true'' else ''false'')"
  let ?l3 = "''R-version = '' @ str_join ''.'' (r_version a)"
  let ?new = "concat (map (\<lambda>l. l @ [NL]) (config_lines b a))"
  have n1: "NL \<notin> set ?l1" using assms(3) by simp
  have n2: "NL \<notin> set ?l2" by simp
  have n3: "NL \<notin> set ?l3" using str_join_no_newline [OF assms(4)] by simp
  have new: "?new = ?l1 @ NL # ?l2 @ NL # ?l3 @ [NL]"
    by (simp add: config_lines_def)
  have three: "text_lines ?new = config_lines b a"
    unfolding new using text_lines_three [OF n1 n2 n3] by (simp add: config_lines_def)
  have lines: "text_lines (old @ NL # ?new) =
      text_lines old @ (if old = [] \<or> last old = NL then [[]] else []) @ config_lines b a"
  proof (cases "old = [] \<or> last old = NL")
    case True
    then have "text_lines (old @ NL # ?new) = text_lines old @ text_lines (NL # ?new)"
      by (rule text_lines_terminated)
    with True three show ?thesis by simp
  next
    case False
    then have "text_lines (old @ NL # ?new) = text_lines old @ text_lines ?new"
      using text_lines_unterminated [of old ?new] by simp
    with False three show ?thesis by simp
  qed
  show ?thesis
    using append_configuration_content [OF assms(1,2)] lines by simp
qed

theorem configuration_appended_witness:
  "append_configuration example_builder example_r ''/b/pyvenv.cfg'' env_b =
     (Inr (), env_b(''/b/pyvenv.cfg'' \<mapsto>
        File (''home = /usr/bin'' @ [NL, NL] @ ''R-home = /usr/lib/R'' @ [NL]
              @ ''R-include-system-packages = false'' @ [NL] @ ''R-version = 4.3.1'' @ [NL])))
   \<and> text_lines (''home = /usr/bin'' @ [NL, NL] @ ''R-home = /usr/lib/R'' @ [NL]
              @ ''R-include-system-packages = false'' @ [NL] @ ''R-version = 4.3.1'' @ [NL])
     = [''home = /usr/bin'', [], ''R-home = /usr/lib/R'',
        ''R-include-system-packages = false'', ''R-version = 4.3.1'']"
proof -
  have h3: "NL \<notin> set (r_home example_r)" by (simp add: example_r_def)
  have h4: "\<forall>w \<in> set (r_version example_r). NL \<notin> set w" by (simp add: example_r_def)
  show ?thesis
    using configuration_appended [OF cfg_resolves cfg_is_file h3 h4, of example_builder]
    by (simp add: config_lines_def example_r_def example_builder_def)
qed

text \<open>
  The claim as stated fails on a configuration file of one line that ends with a
  newline, as the inherited method writes it: afterwards the file has five lines, not four.
\<close>

theorem configuration_appended_counterexample:
  "fst (append_configuration example_builder example_r ''/b/pyvenv.cfg'' env_b) = Inr ()
   \<and> text_lines (file_content env_b ''/b/pyvenv.cfg'') = [''home = /usr/bin'']
   \<and> text_lines (file_content
        (snd (append_configuration example_builder example_r ''/b/pyvenv.cfg'' env_b))
        ''/b/pyvenv.cfg'')
      = [''home = /usr/bin'', [], ''R-home = /usr/lib/R'',
         ''R-include-system-packages = false'', ''R-version = 4.3.1'']
   \<and> length (text_lines (file_content
        (snd (append_configuration example_builder example_r ''/b/pyvenv.cfg'' env_b))
        ''/b/pyvenv.cfg''))
      \<noteq> length (text_lines (file_content env_b ''/b/pyvenv.cfg'')) + 3"
  by code_simp

text \<open>
  C8. What the writer appends depends on the install root, the version and the flag for
  the system packages of R, and on nothing else of the descriptor, the builder or the
  host: two runs that agree on these three and start from the same file system end with
  the same file system. This holds for the \<^verbatim>\<open>with\<close> block and for
  \<^verbatim>\<open>create_configuration\<close> on the convert path, where the context carries the
  descriptor.
\<close>

theorem configuration_deterministic:
  assumes "r_home a1 = r_home a2" and "r_version a1 = r_version a2"
    and "r_system_site_packages b1 = r_system_site_packages b2"
  shows "append_configuration b1 a1 cfg fs = append_configuration b2 a2 cfg fs
         \<and> (r_info ctx1 = Some a1 \<and> r_info ctx2 = Some a2 \<and> cfg_path ctx1 = cfg \<and> cfg_path ctx2 = cfg
              \<longrightarrow> snd (create_configuration base1 env1 b1 True ctx1 fs)
                  = snd (create_configuration base2 env2 b2 True ctx2 fs)
                \<and> isl (fst (create_configuration base1 env1 b1 True ctx1 fs))
                  = isl (fst (create_configuration base2 env2 b2 True ctx2 fs)))"
proof -
  have eq: "append_configuration b1 a1 cfg fs = append_configuration b2 a2 cfg fs"
    using assms
    by (simp add: append_configuration_def r_home_text_def r_include_text_def r_version_text_def)
  have cc: "\<And>base env b ctx a. r_info ctx = Some a \<Longrightarrow>
      create_configuration base env b True ctx fs =
        and_then (append_configuration b a (cfg_path ctx) fs)
          (\<lambda>u fs2. (Inr (ctx\<lparr>r_info := Some a\<rparr>), fs2))"
    by (simp add: create_configuration_def and_then_def ensure_r_info_def)
  show ?thesis
  proof (intro conjI impI)
    show "append_configuration b1 a1 cfg fs = append_configuration b2 a2 cfg fs"
      by (rule eq)
  next
    assume h: "r_info ctx1 = Some a1 \<and> r_info ctx2 = Some a2
                \<and> cfg_path ctx1 = cfg \<and> cfg_path ctx2 = cfg"
    then show "snd (create_configuration base1 env1 b1 True ctx1 fs)
                = snd (create_configuration base2 env2 b2 True ctx2 fs)"
      using eq by (cases "append_configuration b2 a2 cfg fs")
                  (auto simp: cc and_then_def split: sum.splits)
  next
    assume h: "r_info ctx1 = Some a1 \<and> r_info ctx2 = Some a2
                \<and> cfg_path ctx1 = cfg \<and> cfg_path ctx2 = cfg"
    then show "isl (fst (create_configuration base1 env1 b1 True ctx1 fs))
                = isl (fst (create_configuration base2 env2 b2 True ctx2 fs))"
      using eq by (cases "append_configuration b2 a2 cfg fs")
                  (auto simp: cc and_then_def split: sum.splits)
  qed
qed

theorem configuration_deterministic_witness:
  "append_configuration example_builder example_r ''/b/pyvenv.cfg'' env_b
     = append_configuration (example_builder\<lparr>clear := True\<rparr>)
         (example_r\<lparr>r_exec := ''/opt/R/bin/R''\<rparr>) ''/b/pyvenv.cfg'' env_b
   \<and> snd (create_configuration simple_base example_env example_builder True
            ((simple_context ''/b'')\<lparr>r_info := Some example_r\<rparr>) env_b)
     = snd (create_configuration simple_base (example_env\<lparr>win32 := True\<rparr>)
            (example_builder\<lparr>clear := True\<rparr>) True
            ((simple_context ''/b'')\<lparr>r_info := Some (example_r\<lparr>r_exec := ''/opt/R/bin/R''\<rparr>),
                                      python_exe := ''python''\<rparr>) env_b)"
proof -
  have h1: "r_home example_r = r_home (example_r\<lparr>r_exec := ''/opt/R/bin/R''\<rparr>)" by simp
  have h2: "r_version example_r = r_version (example_r\<lparr>r_exec := ''/opt/R/bin/R''\<rparr>)" by simp
  have h3: "r_system_site_packages example_builder
              = r_system_site_packages (example_builder\<lparr>clear := True\<rparr>)" by simp
  show ?thesis
    using configuration_deterministic [OF h1 h2 h3, of "''/b/pyvenv.cfg''" env_b
        "(simple_context ''/b'')\<lparr>r_info := Some example_r\<rparr>"
        "(simple_context ''/b'')\<lparr>r_info := Some (example_r\<lparr>r_exec := ''/opt/R/bin/R''\<rparr>),
                                  python_exe := ''python''\<rparr>"
        simple_base example_env simple_base "example_env\<lparr>win32 := True\<rparr>"]
    by (simp add: simple_context_def path_join_def)
qed

subsection \<open>Converting, and the command line\<close>

lemma no_cfg_in_a:
  "\<not> os_path_exists env_b (path_join (abspath example_env ''/a'') ''pyvenv.cfg'')"
  by code_simp

text \<open>
  C3. Converting a directory without \<^verbatim>\<open>pyvenv.cfg\<close> (none there, or a link that leads
  nowhere) raises the \<^verbatim>\<open>ValueError\<close> that names the directory, and the file system
  is the one the call started with: the check comes before every inherited method and
  before every write.
\<close>

theorem convert_requires_configuration:
  assumes "convert_to_venvr b"
    and "\<not> os_path_exists fs (path_join (abspath env dir) ''pyvenv.cfg'')"
  shows "create base env b dir fs = (Inl (ValueError (NotVirtualEnv (abspath env dir))), fs)"
  using assms by (simp add: create_def Let_def)

theorem convert_requires_configuration_witness:
  "create simple_base example_env example_builder ''/a'' env_b
     = (Inl (ValueError (NotVirtualEnv ''/a'')), env_b)"
proof -
  have c: "convert_to_venvr example_builder" by (simp add: example_builder_def)
  have a: "abspath example_env ''/a'' = ''/a''" by (simp add: example_env_def)
  show ?thesis
    using convert_requires_configuration [OF c no_cfg_in_a, of simple_base] a by simp
qed

text \<open>
  C7. On an interpreter that passes the version check at the head of \<^verbatim>\<open>main\<close> (every
  interpreter that can load the module does: it imports \<^verbatim>\<open>importlib.metadata\<close>), a
  command line with \<^verbatim>\<open>--clear\<close> and one of \<^verbatim>\<open>--convert-to-venvr\<close> and
  \<^verbatim>\<open>--upgrade\<close> raises the \<^verbatim>\<open>ValueError\<close> about the two options, naming the first
  of them, and leaves the file system as it was: no builder exists yet.
\<close>

theorem conflicting_options_abort:
  assumes "compatible env" and "opt_clear opts" and "opt_convert opts \<or> opt_upgrade opts"
  shows "main base env opts fs =
           (Inl (ValueError (NotWithClear
              (if opt_convert opts then ''convert-to-venvr'' else ''upgrade''))), fs)"
  using assms by (auto simp: main_def)

lemma example_env_compatible: "compatible example_env"
  by (simp add: compatible_def example_env_def)

theorem conflicting_options_abort_witness:
  "main simple_base example_env convert_and_clear env_b
     = (Inl (ValueError (NotWithClear ''convert-to-venvr'')), env_b)"
proof -
  have c: "opt_clear convert_and_clear" by (simp add: convert_and_clear_def)
  have d: "opt_convert convert_and_clear \<or> opt_upgrade convert_and_clear"
    by (simp add: convert_and_clear_def)
  show ?thesis
    using conflicting_options_abort [OF example_env_compatible c d, of simple_base env_b]
    by (simp add: convert_and_clear_def)
qed

subsection \<open>Several directories\<close>

lemma create_each_cases:
  "(fst (create_each c dirs fs) = Inr () \<and> attempted c dirs fs = dirs
      \<and> (\<forall>ds1 d ds2. dirs = ds1 @ d # ds2
            \<longrightarrow> fst (c d (snd (create_each c ds1 fs))) = Inr ()))
   \<or> (\<exists>ds1 d ds2 e. dirs = ds1 @ d # ds2
         \<and> fst (create_each c ds1 fs) = Inr ()
         \<and> fst (c d (snd (create_each c ds1 fs))) = Inl e
         \<and> create_each c dirs fs = c d (snd (create_each c ds1 fs))
         \<and> attempted c dirs fs = ds1 @ [d])"
proof (induction dirs arbitrary: fs)
  case Nil
  show ?case by simp
next
  case (Cons x xs)
  obtain r fs1 where step: "c x fs = (r, fs1)" by (cases "c x fs")
  show ?case
  proof (cases r)
    case (Inl e)
    with step have "x # xs = [] @ x # xs \<and> fst (create_each c [] fs) = Inr ()
        \<and> fst (c x (snd (create_each c [] fs))) = Inl e
        \<and> create_each c (x # xs) fs = c x (snd (create_each c [] fs))
        \<and> attempted c (x # xs) fs = [] @ [x]"
      by simp
    then show ?thesis by blast
  next
    case (Inr u)
    with step have ce: "\<And>ds. create_each c (x # ds) fs = create_each c ds fs1"
      and at: "attempted c (x # xs) fs = x # attempted c xs fs1"
      by simp_all
    from Cons.IH [of fs1] show ?thesis
    proof (elim disjE exE conjE)
      assume ok: "fst (create_each c xs fs1) = Inr ()" "attempted c xs fs1 = xs"
        and all: "\<forall>ds1 d ds2. xs = ds1 @ d # ds2
                    \<longrightarrow> fst (c d (snd (create_each c ds1 fs1))) = Inr ()"
      have "\<forall>ds1 d ds2. x # xs = ds1 @ d # ds2
              \<longrightarrow> fst (c d (snd (create_each c ds1 fs))) = Inr ()"
      proof (intro allI impI)
        fix ds1 d ds2 assume eq: "x # xs = ds1 @ d # ds2"
        show "fst (c d (snd (create_each c ds1 fs))) = Inr ()"
        proof (cases ds1)
          case Nil
          with eq step Inr show ?thesis by simp
        next
          case (Cons y ys)
          with eq have "y = x" "xs = ys @ d # ds2" by simp_all
          with all Cons ce show ?thesis by simp
        qed
      qed
      with ok ce at show ?thesis by simp
    next
      fix ds1 d ds2 e
      assume "xs = ds1 @ d # ds2" "fst (create_each c ds1 fs1) = Inr ()"
        "fst (c d (snd (create_each c ds1 fs1))) = Inl e"
        "create_each c xs fs1 = c d (snd (create_each c ds1 fs1))"
        "attempted c xs fs1 = ds1 @ [d]"
      with ce at have "x # xs = (x # ds1) @ d # ds2
        \<and> fst (create_each c (x # ds1) fs) = Inr ()
        \<and> fst (c d (snd (create_each c (x # ds1) fs))) = Inl e
        \<and> create_each c (x # xs) fs = c d (snd (create_each c (x # ds1) fs))
        \<and> attempted c (x # xs) fs = (x # ds1) @ [d]"
        by simp
      then show ?thesis by blast
    qed
  qed
qed

text \<open>
  C2, as the code has it. The directories are built one after another, each on the file
  system the one before left. Either every build returns: then all directories were
  attempted and the exit status is 0. Or some build raises: then it is the first that
  does, the directories behind it are not attempted, \<^verbatim>\<open>main\<close> ends with that
  exception and that file system, and the exit status is 1.
\<close>

theorem builds_stop_at_first_failure:
  assumes "compatible env"
    and "\<not> (opt_clear opts \<and> (opt_convert opts \<or> opt_upgrade opts))"
  shows "(fst (run_script base env opts fs) = 0
          \<and> attempted (create base env (builder_of opts)) (opt_dirs opts) fs = opt_dirs opts
          \<and> (\<forall>ds1 d ds2. opt_dirs opts = ds1 @ d # ds2
                \<longrightarrow> fst (create base env (builder_of opts) d
                          (snd (create_each (create base env (builder_of opts)) ds1 fs)))
                    = Inr ()))
       \<or> (\<exists>ds1 d ds2 e. opt_dirs opts = ds1 @ d # ds2
             \<and> fst (create_each (create base env (builder_of opts)) ds1 fs) = Inr ()
             \<and> fst (create base env (builder_of opts) d
                      (snd (create_each (create base env (builder_of opts)) ds1 fs))) = Inl e
             \<and> main base env opts fs
                 = create base env (builder_of opts) d
                      (snd (create_each (create base env (builder_of opts)) ds1 fs))
             \<and> attempted (create base env (builder_of opts)) (opt_dirs opts) fs = ds1 @ [d]
             \<and> fst (run_script base env opts fs) = 1)"
proof -
  let ?c = "create base env (builder_of opts)"
  have m: "main base env opts fs = create_each ?c (opt_dirs opts) fs"
    using assms by (auto simp: main_def)
  from create_each_cases [of ?c "opt_dirs opts" fs] show ?thesis
  proof (elim disjE exE conjE)
    assume "fst (create_each ?c (opt_dirs opts) fs) = Inr ()"
      "attempted ?c (opt_dirs opts) fs = opt_dirs opts"
      "\<forall>ds1 d ds2. opt_dirs opts = ds1 @ d # ds2
         \<longrightarrow> fst (?c d (snd (create_each ?c ds1 fs))) = Inr ()"
    then show ?thesis
      by (simp add: run_script_def exit_status_def m Let_def)
  next
    fix ds1 d ds2 e
    assume h: "opt_dirs opts = ds1 @ d # ds2" "fst (create_each ?c ds1 fs) = Inr ()"
      "fst (?c d (snd (create_each ?c ds1 fs))) = Inl e"
      "create_each ?c (opt_dirs opts) fs = ?c d (snd (create_each ?c ds1 fs))"
      "attempted ?c (opt_dirs opts) fs = ds1 @ [d]"
    then have "fst (run_script base env opts fs) = 1"
      by (simp add: run_script_def exit_status_def m Let_def)
    with h m have "opt_dirs opts = ds1 @ d # ds2
        \<and> fst (create_each ?c ds1 fs) = Inr ()
        \<and> fst (?c d (snd (create_each ?c ds1 fs))) = Inl e
        \<and> main base env opts fs = ?c d (snd (create_each ?c ds1 fs))
        \<and> attempted ?c (opt_dirs opts) fs = ds1 @ [d]
        \<and> fst (run_script base env opts fs) = 1"
      by simp
    then show ?thesis by blast
  qed
qed

lemma two_dirs_outcome:
  "fst (main simple_base example_env two_dirs env_b) = Inl (ValueError (NotVirtualEnv ''/a''))"
  by code_simp

lemma two_dirs_attempted:
  "attempted (create simple_base example_env (builder_of two_dirs)) (opt_dirs two_dirs) env_b
     = [''/a'']"
  by code_simp

lemma b_alone_succeeds:
  "fst (create simple_base example_env (builder_of two_dirs) ''/b'' env_b) = Inr ()"
  by code_simp

theorem builds_stop_at_first_failure_witness:
  "fst (run_script simple_base example_env two_dirs env_b) = 1
   \<and> attempted (create simple_base example_env (builder_of two_dirs)) (opt_dirs two_dirs) env_b
       = [''/a'']"
proof -
  have h: "\<not> (opt_clear two_dirs \<and> (opt_convert two_dirs \<or> opt_upgrade two_dirs))"
    by (simp add: two_dirs_def)
  from builds_stop_at_first_failure [OF example_env_compatible h, of simple_base env_b]
  show ?thesis
  proof (elim disjE exE conjE)
    assume "attempted (create simple_base example_env (builder_of two_dirs))
              (opt_dirs two_dirs) env_b = opt_dirs two_dirs"
    with two_dirs_attempted show ?thesis by (simp add: two_dirs_def)
  next
    assume "fst (run_script simple_base example_env two_dirs env_b) = 1"
    with two_dirs_attempted show ?thesis by simp
  qed
qed

text \<open>
  The claim as stated fails on two directories of which the first is no environment:
  the second one would convert without an error, and it is never attempted.
\<close>

theorem builds_stop_at_first_failure_counterexample:
  "opt_dirs two_dirs = [''/a'', ''/b'']
   \<and> fst (main simple_base example_env two_dirs env_b) = Inl (ValueError (NotVirtualEnv ''/a''))
   \<and> fst (create simple_base example_env (builder_of two_dirs) ''/b'' env_b) = Inr ()
   \<and> ''/b'' \<notin> set (attempted (create simple_base example_env (builder_of two_dirs))
                      (opt_dirs two_dirs) env_b)"
  using two_dirs_outcome two_dirs_attempted b_alone_succeeds by (simp add: two_dirs_def)

subsection \<open>The library directory\<close>

lemma resolve_not_link:
  "(\<And>t. fs p \<noteq> Some (Symlink t)) \<Longrightarrow> resolve n fs p = Some p"
  by (cases n; cases "fs p"; simp split: node.splits)

lemma os_mkdir_exists: "fs p \<noteq> None \<Longrightarrow> os_mkdir p fs = (Inl (FileExistsError p), fs)"
  by (simp add: os_mkdir_def)

lemma os_makedirs_parent_exists:
  "os_path_exists fs (makedirs_head name) \<Longrightarrow> os_makedirs name fs = os_mkdir name fs"
  by (subst os_makedirs.simps) simp

text \<open>The cases of the provisioner that do what the specification says.\<close>

lemma provision_plain_directory:
  "fs p = Some Dir \<Longrightarrow> provision_libdir p fs = (Inr (), fs)"
proof -
  assume d: "fs p = Some Dir"
  have r: "resolve max_links fs p = Some p"
    using d by (simp add: resolve_not_link)
  show ?thesis
    using d r
    by (simp add: provision_libdir_def os_path_exists_def os_path_islink_def
          os_path_isfile_def stat_def)
qed

lemma provision_regular_file:
  "fs p = Some (File c) \<Longrightarrow>
     provision_libdir p fs = (Inl (ValueError (UnableToCreateDirectory p)), fs)"
proof -
  assume d: "fs p = Some (File c)"
  have r: "resolve max_links fs p = Some p"
    using d by (simp add: resolve_not_link)
  show ?thesis
    using d r
    by (simp add: provision_libdir_def os_path_exists_def os_path_islink_def
          os_path_isfile_def stat_def)
qed

lemma provision_live_link:
  "fs p = Some (Symlink t) \<Longrightarrow> os_path_exists fs p \<Longrightarrow>
     provision_libdir p fs = (Inl (ValueError (UnableToCreateDirectory p)), fs)"
  by (simp add: provision_libdir_def os_path_islink_def)

text \<open>
  A link that leads nowhere does not exist for \<^verbatim>\<open>os.path.exists\<close>, so the first branch
  is taken and \<^verbatim>\<open>os.makedirs\<close> fails on the link.
\<close>

lemma provision_dangling_link:
  "fs p = Some (Symlink t) \<Longrightarrow> \<not> os_path_exists fs p \<Longrightarrow>
   os_path_exists fs (makedirs_head p) \<Longrightarrow>
     provision_libdir p fs = (Inl (FileExistsError p), fs)"
  by (simp add: provision_libdir_def os_makedirs_parent_exists os_mkdir_exists)

lemma dangling_is_link: "dangling_fs ''/b/lib/R4.3'' = Some (Symlink ''/nowhere'')"
  by (simp add: dangling_fs_def)

lemma dangling_not_exists: "\<not> os_path_exists dangling_fs ''/b/lib/R4.3''"
  by code_simp

lemma dangling_parent_exists: "os_path_exists dangling_fs (makedirs_head ''/b/lib/R4.3'')"
  by code_simp

lemma linked_is_link: "linked_fs ''/b/lib/R4.3'' = Some (Symlink ''/b/lib'')"
  by (simp add: linked_fs_def)

lemma linked_exists: "os_path_exists linked_fs ''/b/lib/R4.3''"
  by code_simp

lemma example_libpath:
  "r_libpath example_env (simple_context ''/b'') example_r = ''/b/lib/R4.3''"
  by code_simp

text \<open>
  C4. The code at an environment whose library path \<^verbatim>\<open>/b/lib/R4.3\<close> is a symbolic
  link. When the link leads to a directory, the provisioner raises the \<^verbatim>\<open>ValueError\<close>
  of the layout conflict. When the link leads nowhere, it raises \<^verbatim>\<open>FileExistsError\<close>
  out of \<^verbatim>\<open>os.makedirs\<close> instead; the file system is unchanged in both cases.
\<close>

theorem dangling_link_raises_file_exists:
  "r_libpath example_env (simple_context ''/b'') example_r = ''/b/lib/R4.3''
   \<and> os_path_islink dangling_fs ''/b/lib/R4.3''
   \<and> provision_libdir ''/b/lib/R4.3'' dangling_fs
       = (Inl (FileExistsError ''/b/lib/R4.3''), dangling_fs)
   \<and> os_path_islink linked_fs ''/b/lib/R4.3''
   \<and> provision_libdir ''/b/lib/R4.3'' linked_fs
       = (Inl (ValueError (UnableToCreateDirectory ''/b/lib/R4.3'')), linked_fs)"
  using provision_dangling_link [OF dangling_is_link dangling_not_exists dangling_parent_exists]
    provision_live_link [OF linked_is_link linked_exists]
    example_libpath dangling_is_link linked_is_link
  by (simp add: os_path_islink_def)

subsection \<open>Rewriting the activation script\<close>

lemma length_sub_deactivate: "length s \<le> length (sub_deactivate w s)"
proof (induction w s rule: sub_deactivate.induct)
  case (1 w)
  show ?case by simp
next
  case (2 w c cs)
  show ?case
  proof (cases "\<not> w \<and> startswith (c # cs) ''deactivate'' \<and> \<not> word_start (drop 10 (c # cs))")
    case True
    with 2(1) have "length (drop 10 (c # cs)) \<le> length (sub_deactivate True (drop 10 (c # cs)))"
      by simp
    with True show ?thesis by simp
  next
    case False
    with 2(2) have "length cs \<le> length (sub_deactivate (is_word c) cs)" by simp
    with False show ?thesis by auto
  qed
qed

lemma universal_newlines_id: "CR \<notin> set s \<Longrightarrow> universal_newlines s = s"
  by (induction s rule: universal_newlines.induct) auto

text \<open>What the file holds afterwards: the new text, and the old bytes behind its end.\<close>

lemma rewrite_activate_content:
  assumes "open_existing dst fs = Inr q"
  shows "rewrite_activate dst r_script fs =
          (Inr (), fs(q \<mapsto> File (compose_script (file_read fs q) r_script
                 @ drop (length (compose_script (file_read fs q) r_script))
                     (file_content fs q))))"
  using assms by (simp add: rewrite_activate_def write_at_def)

text \<open>
  A script without carriage returns is read as it is stored; the renaming does not
  shorten it, so the new text covers the old one.
\<close>

lemma rewrite_activate_no_cr:
  assumes "open_existing dst fs = Inr q" "CR \<notin> set (file_content fs q)"
  shows "rewrite_activate dst r_script fs =
          (Inr (), fs(q \<mapsto> File (rename_deactivate (file_content fs q) @ r_script)))"
proof -
  have "length (file_content fs q) \<le> length (compose_script (file_read fs q) r_script)"
    using assms(2) length_sub_deactivate [of "file_content fs q" False]
    by (simp add: compose_script_def file_read_def universal_newlines_id rename_deactivate_def)
  then show ?thesis
    using rewrite_activate_content [OF assms(1)] assms(2)
    by (simp add: compose_script_def file_read_def universal_newlines_id)
qed

text \<open>
  C9. The code at an activation script of six lines that end in \<^verbatim>\<open>\r\n\<close>, with the
  resolved template \<^verbatim>\<open>R\n\<close>. Reading turns each \<^verbatim>\<open>\r\n\<close> into \<^verbatim>\<open>\n\<close>, so the text
  written back (the renamed script and the template) is one character shorter than the
  file, and the last byte of the old file stays behind it.
\<close>

theorem crlf_script_keeps_stale_tail:
  "fst (rewrite_activate ''/b/bin/activate'' (''R'' @ [NL]) crlf_fs) = Inr ()
   \<and> compose_script (file_read crlf_fs ''/b/bin/activate'') (''R'' @ [NL])
       = ''deactivate_py () {'' @ [NL] @ ''unset A'' @ [NL] @ ''unset B'' @ [NL]
         @ ''unset C'' @ [NL] @ ''unset D'' @ [NL] @ ''}'' @ [NL] @ ''R'' @ [NL]
   \<and> file_content (snd (rewrite_activate ''/b/bin/activate'' (''R'' @ [NL]) crlf_fs))
        ''/b/bin/activate''
       = compose_script (file_read crlf_fs ''/b/bin/activate'') (''R'' @ [NL]) @ [NL]"
  by code_simp

subsection \<open>Renaming whole words\<close>

lemma startswith_take: "startswith s p = (take (length p) s = p)"
  by (induction s p rule: startswith.induct) auto










subsection \<open>Placeholders\<close>

lemma startswith_iff: "startswith s p = (\<exists>t. s = p @ t)"
  by (induction s p rule: startswith.induct) auto

lemma str_contains_iff: "str_contains u s = (\<exists>p t. s = p @ u @ t)"
proof (induction s)
  case Nil
  show ?case by auto
next
  case (Cons c cs)
  show ?case
  proof
    assume "str_contains u (c # cs)"
    then consider "startswith (c # cs) u" | "str_contains u cs" by auto
    then show "\<exists>p t. c # cs = p @ u @ t"
    proof cases
      case 1
      then obtain t where "c # cs = u @ t" by (auto simp: startswith_iff)
      then have "c # cs = [] @ u @ t" by simp
      then show ?thesis by blast
    next
      case 2
      with Cons obtain p t where "cs = p @ u @ t" by auto
      then have "c # cs = (c # p) @ u @ t" by simp
      then show ?thesis by blast
    qed
  next
    assume "\<exists>p t. c # cs = p @ u @ t"
    then obtain p t where pt: "c # cs = p @ u @ t" by auto
    show "str_contains u (c # cs)"
    proof (cases p)
      case Nil
      with pt have "startswith (c # cs) u" by (auto simp: startswith_iff)
      then show ?thesis by simp
    next
      case (Cons x xs)
      with pt have "cs = xs @ u @ t" by simp
      with Cons.IH show ?thesis by auto
    qed
  qed
qed

lemma replace_absent: "\<not> str_contains old s \<Longrightarrow> str_replace old new s = s"
  by (induction old new s rule: str_replace.induct) auto

lemma replace_self: "old \<noteq> [] \<Longrightarrow> str_replace old new old = new"
proof -
  assume n: "old \<noteq> []"
  then obtain c cs where o: "old = c # cs" by (cases old) auto
  have "startswith old old" by (simp add: startswith_iff)
  then show ?thesis using n o by simp
qed

lemma startswith_delimiter:
  "c \<notin> set old \<Longrightarrow> startswith (a @ c # b) old = startswith a old"
  by (induction a old rule: startswith.induct) auto

lemma replace_delimiter:
  "c \<notin> set old \<Longrightarrow>
     str_replace old new (a @ c # b) = str_replace old new a @ c # str_replace old new b"
proof (induction old new a rule: str_replace.induct)
  case (1 old new)
  have "\<not> (old \<noteq> [] \<and> startswith (c # b) old)"
  proof (cases old)
    case Nil
    then show ?thesis by simp
  next
    case (Cons y ys)
    with 1 have "y \<noteq> c" by auto
    with Cons show ?thesis by simp
  qed
  then show ?case by auto
next
  case (2 old new x xs)
  note notin = "2.prems"
  show ?case
  proof (cases "old \<noteq> [] \<and> startswith (x # xs) old")
    case True
    then have m: "old \<noteq> [] \<and> startswith ((x # xs) @ c # b) old"
      using startswith_delimiter [OF notin, of "x # xs" b] by simp
    from True obtain t where t: "x # xs = old @ t" by (auto simp: startswith_iff)
    then have d: "drop (length old) ((x # xs) @ c # b) = drop (length old) (x # xs) @ c # b"
      by simp
    have "str_replace old new ((x # xs) @ c # b)
            = new @ str_replace old new (drop (length old) ((x # xs) @ c # b))"
      using m by simp
    also have "\<dots> = new @ str_replace old new (drop (length old) (x # xs))
                         @ c # str_replace old new b"
      unfolding d using 2(1) [OF True notin] by simp
    also have "\<dots> = str_replace old new (x # xs) @ c # str_replace old new b"
      using True by simp
    finally show ?thesis .
  next
    case False
    then have m: "\<not> (old \<noteq> [] \<and> startswith ((x # xs) @ c # b) old)"
      using startswith_delimiter [OF notin, of "x # xs" b] by simp
    have "str_replace old new ((x # xs) @ c # b) = x # str_replace old new (xs @ c # b)"
      using m by auto
    also have "\<dots> = x # str_replace old new xs @ c # str_replace old new b"
      using 2(2) [OF False notin] by simp
    also have "\<dots> = str_replace old new (x # xs) @ c # str_replace old new b"
      using False by auto
    finally show ?thesis .
  qed
qed

lemma apart_tail: "apart u (x # xs) \<Longrightarrow> \<forall>w v' t. xs = w @ v' \<and> v' \<noteq> [] \<longrightarrow> \<not> startswith (v' @ t) u"
proof (intro allI impI)
  fix w v' t assume a: "apart u (x # xs)" and "xs = w @ v' \<and> v' \<noteq> []"
  then have "x # xs = (x # w) @ v' \<and> v' \<noteq> []" by simp
  with a show "\<not> startswith (v' @ t) u" unfolding apart_def by blast
qed

lemma contains_append_inside:
  "\<forall>w v' t. v = w @ v' \<and> v' \<noteq> [] \<longrightarrow> \<not> startswith (v' @ t) u \<Longrightarrow>
   str_contains u (v @ r) \<Longrightarrow> str_contains u r"
proof (induction v)
  case Nil
  then show ?case by simp
next
  case (Cons x xs)
  have "\<not> startswith ((x # xs) @ r) u"
    using Cons.prems(1) by blast
  with Cons.prems(2) have c: "str_contains u (xs @ r)" by simp
  have "\<forall>w v' t. xs = w @ v' \<and> v' \<noteq> [] \<longrightarrow> \<not> startswith (v' @ t) u"
  proof (intro allI impI)
    fix w v' t assume "xs = w @ v' \<and> v' \<noteq> []"
    then have "x # xs = (x # w) @ v' \<and> v' \<noteq> []" by simp
    then show "\<not> startswith (v' @ t) u" using Cons.prems(1) by blast
  qed
  with Cons.IH c show ?case by blast
qed

lemma contains_append_value: "apart u v \<Longrightarrow> str_contains u (v @ r) \<Longrightarrow> str_contains u r"
  using contains_append_inside [of v u r] by (simp add: apart_def)

lemma startswith_append: "startswith p u \<Longrightarrow> startswith (p @ s) u"
  by (auto simp: startswith_iff)

lemma prefix_transfer:
  "apart u v \<Longrightarrow> startswith (p @ str_replace old v s) u \<Longrightarrow> startswith (p @ s) u"
proof (induction old v s arbitrary: p rule: str_replace.induct)
  case (1 old new)
  then show ?case by simp
next
  case (2 old new c cs)
  note ap = "2.prems"(1)
  show ?case
  proof (cases "old \<noteq> [] \<and> startswith (c # cs) old")
    case True
    with "2.prems"(2)
    have "startswith (p @ new @ str_replace old new (drop (length old) (c # cs))) u"
      by simp
    then have "startswith p u" using ap unfolding apart_def by blast
    then show ?thesis by (rule startswith_append)
  next
    case False
    with "2.prems"(2) have "startswith ((p @ [c]) @ str_replace old new cs) u"
      by auto
    then have "startswith ((p @ [c]) @ cs) u"
      by (rule 2(2) [OF False ap])
    then show ?thesis by simp
  qed
qed

lemma contains_suffix: "str_contains u (drop n s) \<Longrightarrow> str_contains u s"
proof -
  assume "str_contains u (drop n s)"
  then obtain p t where "drop n s = p @ u @ t" by (auto simp: str_contains_iff)
  then have "s = (take n s @ p) @ u @ t" by (metis append_take_drop_id append.assoc)
  then show ?thesis unfolding str_contains_iff by blast
qed

text \<open>Replacing cannot bring about an occurrence of \<open>u\<close> that was not there.\<close>

lemma replace_no_new_occurrence:
  "apart u v \<Longrightarrow> str_contains u (str_replace old v s) \<Longrightarrow> str_contains u s"
proof (induction old v s rule: str_replace.induct)
  case (1 old new)
  then show ?case by simp
next
  case (2 old new c cs)
  note ap = "2.prems"(1)
  show ?case
  proof (cases "old \<noteq> [] \<and> startswith (c # cs) old")
    case True
    with "2.prems"(2)
    have "str_contains u (new @ str_replace old new (drop (length old) (c # cs)))"
      by simp
    then have "str_contains u (str_replace old new (drop (length old) (c # cs)))"
      by (rule contains_append_value [OF ap])
    then have "str_contains u (drop (length old) (c # cs))"
      by (rule 2(1) [OF True ap])
    then show ?thesis by (rule contains_suffix)
  next
    case False
    with "2.prems"(2) have "str_contains u (c # str_replace old new cs)" by auto
    then consider "startswith ([c] @ str_replace old new cs) u"
      | "str_contains u (str_replace old new cs)" by auto
    then show ?thesis
    proof cases
      case 1
      then have "startswith ([c] @ cs) u" by (rule prefix_transfer [OF ap])
      then show ?thesis by simp
    next
      case 2
      then have "str_contains u cs" by (rule "2.IH"(2) [OF False ap])
      then show ?thesis by simp
    qed
  qed
qed

text \<open>After the replacement no occurrence of \<open>old\<close> is left.\<close>

lemma replace_removes:
  "apart old v \<Longrightarrow> old \<noteq> [] \<Longrightarrow> \<not> str_contains old (str_replace old v s)"
proof (induction old v s rule: str_replace.induct)
  case (1 old new)
  then show ?case by simp
next
  case (2 old new c cs)
  note ap = "2.prems"(1) and ne = "2.prems"(2)
  show ?case
  proof (cases "old \<noteq> [] \<and> startswith (c # cs) old")
    case True
    have "\<not> str_contains old (str_replace old new (drop (length old) (c # cs)))"
      by (rule 2(1) [OF True ap ne])
    then have "\<not> str_contains old (new @ str_replace old new (drop (length old) (c # cs)))"
      using contains_append_value [OF ap] by blast
    with True show ?thesis by simp
  next
    case False
    have a: "\<not> str_contains old (str_replace old new cs)"
      by (rule 2(2) [OF False ap ne])
    have b: "\<not> startswith ([c] @ str_replace old new cs) old"
    proof
      assume "startswith ([c] @ str_replace old new cs) old"
      then have "startswith ([c] @ cs) old" by (rule prefix_transfer [OF ap])
      with False ne show False by simp
    qed
    from a b False show ?thesis by auto
  qed
qed


lemma contains_double: "v = w @ ''__'' @ r \<Longrightarrow> str_contains ''__'' v"
  unfolding str_contains_iff by blast

lemma take_prefix_split: "take (length u) (p @ r) = u \<Longrightarrow> \<not> length u \<le> length p \<Longrightarrow> u = p @ drop (length p) u"
proof -
  assume a: "take (length u) (p @ r) = u" and b: "\<not> length u \<le> length p"
  from b have "take (length u) (p @ r) = p @ take (length u - length p) r" by simp
  with a have "u = p @ take (length u - length p) r" by simp
  then have "drop (length p) u = take (length u - length p) r"
    by (metis append_eq_conv_conj)
  with \<open>u = p @ take (length u - length p) r\<close> show ?thesis by simp
qed

lemma take_rest: "take (length (p @ z)) (p @ r) = p @ z \<Longrightarrow> take (length z) r = z"
  by simp

lemma take_single: "z = take (length z) v \<Longrightarrow> length z = 1 \<Longrightarrow> z = [hd v]"
proof -
  assume a: "z = take (length z) v" and b: "length z = 1"
  then have "v \<noteq> []" by auto
  then obtain x xs where "v = x # xs" by (cases v) auto
  with a b show ?thesis by simp
qed

lemma drop_tail_two: "drop (length (p @ z) - 2) (p @ z) = s2 \<Longrightarrow> 2 \<le> length z \<Longrightarrow> drop (length z - 2) z = s2"
  by simp

lemma take_longer: "take (length z) (v @ t) = z \<Longrightarrow> \<not> length z \<le> length v \<Longrightarrow> v = take (length v) z"
proof -
  assume a: "take (length z) (v @ t) = z" and b: "\<not> length z \<le> length v"
  from b have "take (length z) (v @ t) = v @ take (length z - length v) t" by simp
  with a have "z = v @ take (length z - length v) t" by simp
  then show ?thesis by (metis append_eq_conv_conj)
qed

lemma token_apart:
  assumes shape: "u = ''__'' @ m @ ''__''"
    and chars: "set u \<subseteq> set token_chars"
    and safe: "safe_value v"
  shows "apart u v"
  unfolding apart_def
proof (intro conjI allI impI)
  fix w v' t assume a: "v = w @ v' \<and> v' \<noteq> []"
  show "\<not> startswith (v' @ t) u"
  proof
    assume s: "startswith (v' @ t) u"
    from a obtain x v2 where v': "v' = x # v2" by (cases v') auto
    from s v' shape have x: "x = CHR ''_''"
      and s2: "startswith (v2 @ t) (CHR ''_'' # m @ ''__'')" by simp_all
    show False
    proof (cases v2)
      case Nil
      with a v' x have "last v = CHR ''_''" by simp
      with safe show False by (simp add: safe_value_def)
    next
      case (Cons y v3)
      with s2 have "y = CHR ''_''" by simp
      with a v' x Cons have "v = w @ ''__'' @ v3" by simp
      then have "str_contains ''__'' v" by (rule contains_double)
      with safe show False by (simp add: safe_value_def)
    qed
  qed
next
  fix p t assume s: "startswith (p @ v @ t) u"
  then have e: "take (length u) (p @ v @ t) = u" by (simp add: startswith_take)
  show "startswith p u"
  proof (cases "length u \<le> length p")
    case True
    with e have "take (length u) p = u" by simp
    then show ?thesis by (simp add: startswith_take)
  next
    case False
    define z where "z = drop (length p) u"
    have up: "u = p @ z"
      unfolding z_def using e False by (rule take_prefix_split)
    have zne: "z \<noteq> []" using False z_def by simp
    have zv: "take (length z) (v @ t) = z"
      using e unfolding up by (rule take_rest)
    have ulast: "last u = CHR ''_''" using shape by simp
    show ?thesis
    proof (cases "length z \<le> length v")
      case True
      with zv have zt: "z = take (length z) v" by simp
      show ?thesis
      proof (cases "length z = 1")
        case True
        with zt have "z = [hd v]" by (rule take_single)
        with up ulast have "hd v = CHR ''_''" by simp
        with safe show ?thesis by (simp add: safe_value_def)
      next
        case F: False
        from zne have "0 < length z" by simp
        with F have l2: "2 \<le> length z" by arith
        have "drop (length u - 2) u = ''__''" using shape by simp
        then have "drop (length (p @ z) - 2) (p @ z) = ''__''" unfolding up .
        then have "drop (length z - 2) z = ''__''" using l2 by (rule drop_tail_two)
        then have "z = take (length z - 2) z @ ''__''"
          by (metis append_take_drop_id)
        with zt have "v = take (length z - 2) z @ ''__'' @ drop (length z) v"
          by (metis append.assoc append_take_drop_id)
        then have "str_contains ''__'' v" by (rule contains_double)
        with safe show ?thesis by (simp add: safe_value_def)
      qed
    next
      case F: False
      with zv have "v = take (length v) z" by (rule take_longer)
      then have "set v \<subseteq> set z" by (metis set_take_subset)
      with up chars have "set v \<subseteq> set token_chars" by auto
      then have "filter (\<lambda>c. c \<notin> set token_chars) v = []" by (auto simp: filter_empty_conv)
      with safe show ?thesis by (simp add: safe_value_def)
    qed
  qed
qed


lemma token_shapes:
  "''__VENVR_SYSTEM_PACKAGES__'' = ''__'' @ ''VENVR_SYSTEM_PACKAGES'' @ ''__''"
  "''__VENVR_R_HOME__'' = ''__'' @ ''VENVR_R_HOME'' @ ''__''"
  "''__VENVR_PY_EXEC__'' = ''__'' @ ''VENVR_PY_EXEC'' @ ''__''"
  "''__VENVR_LIB_NAME__'' = ''__'' @ ''VENVR_LIB_NAME'' @ ''__''"
  by simp_all

lemma token_sets:
  "set ''__VENVR_SYSTEM_PACKAGES__'' \<subseteq> set token_chars"
  "set ''__VENVR_R_HOME__'' \<subseteq> set token_chars"
  "set ''__VENVR_PY_EXEC__'' \<subseteq> set token_chars"
  "set ''__VENVR_LIB_NAME__'' \<subseteq> set token_chars"
  by (simp_all add: token_chars_def tokens_def)

lemma tokens_apart:
  assumes "safe_value v"
  shows "apart ''__VENVR_SYSTEM_PACKAGES__'' v" "apart ''__VENVR_R_HOME__'' v"
    "apart ''__VENVR_PY_EXEC__'' v" "apart ''__VENVR_LIB_NAME__'' v"
  using token_apart [OF token_shapes(1) token_sets(1) assms]
    token_apart [OF token_shapes(2) token_sets(2) assms]
    token_apart [OF token_shapes(3) token_sets(3) assms]
    token_apart [OF token_shapes(4) token_sets(4) assms]
  by blast+

lemma no_token_left:
  assumes "safe_value incl" "safe_value home" "safe_value py" "safe_value lib"
  shows "\<forall>T \<in> set tokens. \<not> str_contains T (replace_venvr incl home py lib s)"
proof -
  let ?SP = "''__VENVR_SYSTEM_PACKAGES__''" and ?RH = "''__VENVR_R_HOME__''"
  let ?PY = "''__VENVR_PY_EXEC__''" and ?LN = "''__VENVR_LIB_NAME__''"
  let ?s1 = "str_replace ?SP incl s"
  let ?s2 = "str_replace ?RH home ?s1"
  let ?s3 = "str_replace ?PY py ?s2"
  let ?s4 = "str_replace ?LN lib ?s3"
  have sp1: "\<not> str_contains ?SP ?s1"
    by (rule replace_removes [OF tokens_apart(1) [OF assms(1)]]) simp
  have sp2: "\<not> str_contains ?SP ?s2"
    using replace_no_new_occurrence [OF tokens_apart(1) [OF assms(2)]] sp1 by blast
  have sp3: "\<not> str_contains ?SP ?s3"
    using replace_no_new_occurrence [OF tokens_apart(1) [OF assms(3)]] sp2 by blast
  have sp4: "\<not> str_contains ?SP ?s4"
    using replace_no_new_occurrence [OF tokens_apart(1) [OF assms(4)]] sp3 by blast
  have rh2: "\<not> str_contains ?RH ?s2"
    by (rule replace_removes [OF tokens_apart(2) [OF assms(2)]]) simp
  have rh3: "\<not> str_contains ?RH ?s3"
    using replace_no_new_occurrence [OF tokens_apart(2) [OF assms(3)]] rh2 by blast
  have rh4: "\<not> str_contains ?RH ?s4"
    using replace_no_new_occurrence [OF tokens_apart(2) [OF assms(4)]] rh3 by blast
  have py3: "\<not> str_contains ?PY ?s3"
    by (rule replace_removes [OF tokens_apart(3) [OF assms(3)]]) simp
  have py4: "\<not> str_contains ?PY ?s4"
    using replace_no_new_occurrence [OF tokens_apart(3) [OF assms(4)]] py3 by blast
  have ln4: "\<not> str_contains ?LN ?s4"
    by (rule replace_removes [OF tokens_apart(4) [OF assms(4)]]) simp
  have "replace_venvr incl home py lib s = ?s4" by (simp add: replace_venvr_def)
  with sp4 rh4 py4 ln4 show ?thesis by (simp add: tokens_def)
qed

lemma replace_venvr_delimiter:
  assumes "c \<notin> set token_chars"
  shows "replace_venvr incl home py lib (x @ c # y)
           = replace_venvr incl home py lib x @ c # replace_venvr incl home py lib y"
proof -
  have "c \<notin> set ''__VENVR_SYSTEM_PACKAGES__''" "c \<notin> set ''__VENVR_R_HOME__''"
    "c \<notin> set ''__VENVR_PY_EXEC__''" "c \<notin> set ''__VENVR_LIB_NAME__''"
    using assms token_sets by blast+
  note h = this
  show ?thesis
    unfolding replace_venvr_def
    by (simp only: replace_delimiter [OF h(1)] replace_delimiter [OF h(2)]
          replace_delimiter [OF h(3)] replace_delimiter [OF h(4)])
qed

lemma replace_venvr_nil: "replace_venvr incl home py lib [] = []"
  by (simp add: replace_venvr_def)

lemma replace_venvr_local:
  assumes "delimited x y"
  shows "replace_venvr incl home py lib (x @ m @ y)
           = replace_venvr incl home py lib x @ replace_venvr incl home py lib m
               @ replace_venvr incl home py lib y"
proof -
  let ?r = "replace_venvr incl home py lib"
  have right: "?r (m @ y) = ?r m @ ?r y"
  proof (cases y)
    case Nil
    then show ?thesis by (simp add: replace_venvr_nil)
  next
    case (Cons d y')
    with assms have d: "d \<notin> set token_chars" by (simp add: delimited_def)
    have "?r (m @ d # y') = ?r m @ d # ?r y'" by (rule replace_venvr_delimiter [OF d])
    moreover have "?r ([] @ d # y') = ?r [] @ d # ?r y'" by (rule replace_venvr_delimiter [OF d])
    ultimately show ?thesis using Cons by (simp add: replace_venvr_nil)
  qed
  show ?thesis
  proof (cases "x = []")
    case True
    with right show ?thesis by (simp add: replace_venvr_nil)
  next
    case False
    then obtain x' c where x: "x = x' @ [c]" by (metis rev_exhaust)
    with assms have c: "c \<notin> set token_chars" by (simp add: delimited_def)
    have "?r (x' @ c # (m @ y)) = ?r x' @ c # ?r (m @ y)" by (rule replace_venvr_delimiter [OF c])
    moreover have "?r (x' @ c # []) = ?r x' @ c # ?r []" by (rule replace_venvr_delimiter [OF c])
    ultimately show ?thesis using x right by (simp add: replace_venvr_nil)
  qed
qed

lemma contains_prefix_part: "str_contains (p @ q) s \<Longrightarrow> str_contains p s"
proof -
  assume "str_contains (p @ q) s"
  then obtain a t where "s = a @ (p @ q) @ t" unfolding str_contains_iff by blast
  then have "s = a @ p @ (q @ t)" by simp
  then show ?thesis unfolding str_contains_iff by blast
qed

lemma token_needs_underscores:
  assumes "\<not> str_contains ''__'' v"
  shows "\<not> str_contains ''__VENVR_SYSTEM_PACKAGES__'' v" "\<not> str_contains ''__VENVR_R_HOME__'' v"
    "\<not> str_contains ''__VENVR_PY_EXEC__'' v" "\<not> str_contains ''__VENVR_LIB_NAME__'' v"
  using assms contains_prefix_part [of "''__''" "''VENVR_SYSTEM_PACKAGES__''" v]
    contains_prefix_part [of "''__''" "''VENVR_R_HOME__''" v]
    contains_prefix_part [of "''__''" "''VENVR_PY_EXEC__''" v]
    contains_prefix_part [of "''__''" "''VENVR_LIB_NAME__''" v]
  by auto

lemma token_free_unchanged:
  assumes "\<forall>T \<in> set tokens. \<not> str_contains T m"
  shows "replace_venvr incl home py lib m = m"
  using assms by (simp add: replace_venvr_def tokens_def replace_absent)

lemma tokens_get_values:
  assumes "safe_value incl" "safe_value home" "safe_value py" "safe_value lib"
  shows "replace_venvr incl home py lib ''__VENVR_SYSTEM_PACKAGES__'' = incl"
    and "replace_venvr incl home py lib ''__VENVR_R_HOME__'' = home"
    and "replace_venvr incl home py lib ''__VENVR_PY_EXEC__'' = py"
    and "replace_venvr incl home py lib ''__VENVR_LIB_NAME__'' = lib"
proof -
  have a: "\<not> str_contains ''__VENVR_SYSTEM_PACKAGES__'' ''__VENVR_R_HOME__''"
    "\<not> str_contains ''__VENVR_SYSTEM_PACKAGES__'' ''__VENVR_PY_EXEC__''"
    "\<not> str_contains ''__VENVR_SYSTEM_PACKAGES__'' ''__VENVR_LIB_NAME__''"
    "\<not> str_contains ''__VENVR_R_HOME__'' ''__VENVR_PY_EXEC__''"
    "\<not> str_contains ''__VENVR_R_HOME__'' ''__VENVR_LIB_NAME__''"
    "\<not> str_contains ''__VENVR_PY_EXEC__'' ''__VENVR_LIB_NAME__''"
    by code_simp+
  have u: "\<not> str_contains ''__'' incl" "\<not> str_contains ''__'' home"
    "\<not> str_contains ''__'' py" "\<not> str_contains ''__'' lib"
    using assms by (simp_all add: safe_value_def)
  note n = token_needs_underscores [OF u(1)] token_needs_underscores [OF u(2)]
    token_needs_underscores [OF u(3)] token_needs_underscores [OF u(4)]
  have self: "\<And>old new. old \<noteq> [] \<Longrightarrow> str_replace old new old = new" by (rule replace_self)
  show "replace_venvr incl home py lib ''__VENVR_SYSTEM_PACKAGES__'' = incl"
    unfolding replace_venvr_def
    by (simp only: replace_self replace_absent n list.distinct not_False_eq_True)
  show "replace_venvr incl home py lib ''__VENVR_R_HOME__'' = home"
    unfolding replace_venvr_def
    by (simp only: replace_self replace_absent n a list.distinct not_False_eq_True)
  show "replace_venvr incl home py lib ''__VENVR_PY_EXEC__'' = py"
    unfolding replace_venvr_def
    by (simp only: replace_self replace_absent n a list.distinct not_False_eq_True)
  show "replace_venvr incl home py lib ''__VENVR_LIB_NAME__'' = lib"
    unfolding replace_venvr_def
    by (simp only: replace_self replace_absent n a list.distinct not_False_eq_True)
qed

lemma marker_in_tokens:
  assumes "\<not> str_contains ''__VENVR_'' s"
  shows "\<forall>T \<in> set tokens. \<not> str_contains T s"
  using assms contains_prefix_part [of "''__VENVR_''" "''SYSTEM_PACKAGES__''" s]
    contains_prefix_part [of "''__VENVR_''" "''R_HOME__''" s]
    contains_prefix_part [of "''__VENVR_''" "''PY_EXEC__''" s]
    contains_prefix_part [of "''__VENVR_''" "''LIB_NAME__''" s]
  by (auto simp: tokens_def)

lemma replace_variables_chain:
  assumes "r_info ctx = Some a" "lib_name ctx = Some lib"
  shows "replace_variables base b s ctx =
           Inr (replace_venvr (if r_system_site_packages b then ''true'' else ''false'')
                  (r_home a) (python_exe ctx) lib (base_replace_variables base b s ctx))"
  using assms token_free_unchanged [OF marker_in_tokens]
  by (simp add: replace_variables_def Let_def)

lemma safe_flags: "safe_value ''true''" "safe_value ''false''"
  by code_simp+

lemma example_values_safe:
  "safe_value (r_home example_r)" "safe_value (python_exe example_context)" "safe_value ''lib''"
  by code_simp+

text \<open>
  C6, as the code has it. With the R attributes and the library name on the context,
  the resolver returns the text that four replacements (flag, install root, executable,
  library name, in this order) make of the text the inherited resolver returns. When
  the install root, the executable and the library name are safe values, the result
  contains none of the four placeholders; each placeholder by itself becomes its value;
  a delimited stretch of the text is resolved by itself, and so is what stands before and
  behind it; and a text that contains none of the four placeholders, one with other
  placeholders included, stays as it is.
\<close>

theorem placeholders_resolved:
  assumes "r_info ctx = Some a" and "lib_name ctx = Some lib"
    and "safe_value (r_home a)" and "safe_value (python_exe ctx)" and "safe_value lib"
  shows "let resolve = replace_venvr (if r_system_site_packages b then ''true'' else ''false'')
                         (r_home a) (python_exe ctx) lib
         in replace_variables base b script ctx
              = Inr (resolve (base_replace_variables base b script ctx))
            \<and> (\<forall>T \<in> set tokens. \<not> str_contains T (resolve s))
            \<and> map resolve tokens
                = [if r_system_site_packages b then ''true'' else ''false'',
                   r_home a, python_exe ctx, lib]
            \<and> (delimited x y \<longrightarrow> resolve (x @ m @ y) = resolve x @ resolve m @ resolve y)
            \<and> ((\<forall>T \<in> set tokens. \<not> str_contains T m) \<longrightarrow> resolve m = m)"
proof -
  let ?incl = "if r_system_site_packages b then ''true'' else ''false''"
  let ?r = "replace_venvr ?incl (r_home a) (python_exe ctx) lib"
  have si: "safe_value ?incl" using safe_flags by simp
  have 1: "replace_variables base b script ctx
             = Inr (?r (base_replace_variables base b script ctx))"
    by (rule replace_variables_chain [OF assms(1,2)])
  have 2: "\<forall>T \<in> set tokens. \<not> str_contains T (?r s)"
    by (rule no_token_left [OF si assms(3,4,5)])
  have 3: "map ?r tokens = [?incl, r_home a, python_exe ctx, lib]"
    using tokens_get_values [OF si assms(3,4,5)] by (simp add: tokens_def)
  have 4: "delimited x y \<longrightarrow> ?r (x @ m @ y) = ?r x @ ?r m @ ?r y"
    using replace_venvr_local by blast
  have 5: "(\<forall>T \<in> set tokens. \<not> str_contains T m) \<longrightarrow> ?r m = m"
    using token_free_unchanged by blast
  from 1 2 3 4 5 show ?thesis unfolding Let_def by blast
qed

theorem placeholders_resolved_witness:
  "replace_variables simple_base example_builder example_template example_context
     = Inr ''R_HOME=/usr/lib/R PY=python3 X=__VENVR_OTHER__''
   \<and> \<not> str_contains ''__VENVR_R_HOME__''
         (replace_venvr ''false'' ''/usr/lib/R'' ''python3'' ''lib'' example_template)"
proof -
  have h1: "r_info example_context = Some example_r" by (simp add: example_context_def)
  have h2: "lib_name example_context = Some ''lib''" by (simp add: example_context_def)
  have v: "replace_venvr ''false'' ''/usr/lib/R'' ''python3'' ''lib'' example_template
             = ''R_HOME=/usr/lib/R PY=python3 X=__VENVR_OTHER__''"
    by code_simp
  have t: "''__VENVR_R_HOME__'' \<in> set tokens" by (simp add: tokens_def)
  have e: "r_home example_r = ''/usr/lib/R''" "python_exe example_context = ''python3''"
    "\<not> r_system_site_packages example_builder"
    "base_replace_variables simple_base example_builder example_template example_context
       = example_template"
    by (simp_all add: example_r_def example_context_def simple_context_def
          example_builder_def simple_base_def)
  from placeholders_resolved [OF h1 h2 example_values_safe, of example_builder simple_base
      example_template example_template "[]" "[]" "[]"]
  have "replace_variables simple_base example_builder example_template example_context
          = Inr (replace_venvr ''false'' ''/usr/lib/R'' ''python3'' ''lib'' example_template)
        \<and> (\<forall>T \<in> set tokens. \<not> str_contains T
              (replace_venvr ''false'' ''/usr/lib/R'' ''python3'' ''lib'' example_template))"
    by (simp add: Let_def e)
  with t show ?thesis unfolding v by blast
qed

text \<open>
  The claim as stated fails in two ways. An install root whose name contains a
  placeholder that was replaced before leaves that placeholder in the output. And in a
  template where a placeholder shares its last underscores with the next one, the
  replacement of the second takes them away, so that the first is not replaced.
\<close>

theorem placeholders_resolved_counterexample:
  "replace_variables simple_base example_builder ''R_HOME=__VENVR_R_HOME__'' odd_context
     = Inr ''R_HOME=/opt/__VENVR_SYSTEM_PACKAGES__''
   \<and> str_contains ''__VENVR_SYSTEM_PACKAGES__'' ''R_HOME=/opt/__VENVR_SYSTEM_PACKAGES__''
   \<and> str_contains ''__VENVR_PY_EXEC__'' overlapping_template
   \<and> replace_variables simple_base example_builder overlapping_template example_context
     = Inr ''__VENVR_PY_EXEC/usr/lib/R''"
  by code_simp

end
